theory Spec2Isabelle
  imports Main "HOL-Library.Word"
begin

section \<open>Host-side motor control script: data model\<close>

text \<open>
  The script \<^verbatim>\<open>server.py\<close> talks to a USB serial motor controller. Python text is a
  sequence of Unicode code points, bytes are 8-bit words. ASCII literals of the source are
  written with \<open>ascii\<close>.
\<close>

type_synonym byte = "8 word"
type_synonym str = "nat list"

definition ascii :: "string \<Rightarrow> str" where
  "ascii s = map of_char s"

definition crlf :: str where
  "crlf = [13, 10]"

definition nl :: str where
  "nl = [10]"

text \<open>Exceptions of the interpreter and of the serial library that the script can meet.\<close>

datatype exn =
    KeyboardInterrupt
  | EOFError
  | UnicodeEncodeError
  | PortNotOpenError

subsection \<open>Text encoding: \<^verbatim>\<open>str.encode()\<close>\<close>

text \<open>
  \<^verbatim>\<open>str.encode()\<close> is UTF-8 with the strict error handler: a surrogate code point
  (U+D800 to U+DFFF) has no encoding and raises. Values above U+10FFFF are not code points;
  the model rejects them as well.
\<close>

definition utf8_char :: "nat \<Rightarrow> exn + byte list" where
  "utf8_char c =
     (if c < 0x80 then Inr [of_nat c]
      else if c < 0x800 then Inr [of_nat (0xC0 + c div 64), of_nat (0x80 + c mod 64)]
      else if 0xD800 \<le> c \<and> c < 0xE000 then Inl UnicodeEncodeError
      else if c < 0x10000 then
        Inr [of_nat (0xE0 + c div 4096), of_nat (0x80 + c div 64 mod 64),
             of_nat (0x80 + c mod 64)]
      else if c < 0x110000 then
        Inr [of_nat (0xF0 + c div 262144), of_nat (0x80 + c div 4096 mod 64),
             of_nat (0x80 + c div 64 mod 64), of_nat (0x80 + c mod 64)]
      else Inl UnicodeEncodeError)"

fun encode :: "str \<Rightarrow> exn + byte list" where
  "encode [] = Inr []"
| "encode (c # cs) =
     (case utf8_char c of
        Inl e \<Rightarrow> Inl e
      | Inr b \<Rightarrow> (case encode cs of Inl e \<Rightarrow> Inl e | Inr bs \<Rightarrow> Inr (b @ bs)))"

subsection \<open>The world the script runs in\<close>

text \<open>
  Every effect of the main thread is an event of one trace, in program order:
  text written by \<^verbatim>\<open>print\<close> (with its \<^verbatim>\<open>end\<close> appended, and the flush flag), a call
  of \<^verbatim>\<open>input\<close> with its prompt, a call of \<^verbatim>\<open>time.sleep\<close> (in milliseconds), and the
  calls on the serial library. Writing to standard output does not fail. The user's
  interrupt is met where the script waits: in \<^verbatim>\<open>input\<close> and in \<^verbatim>\<open>time.sleep\<close>.
\<close>

datatype event =
    Print str bool
  | Input str
  | Sleep nat
  | SerialOpen str nat nat
  | SerialWrite "byte list"
  | SerialRead "byte list"
  | SerialClose
  | ThreadStart

text \<open>What one call of \<^verbatim>\<open>input()\<close> meets: a line, or the user's interrupt.\<close>

datatype keyboard = Line str | CtrlC

record port_info =
  device :: str
  description :: str
  manufacturer :: "str option"

text \<open>
  The environment: the lines waiting on standard input (none left is end of file), the
  sleeping time left before an interrupt signal arrives (if one does), what
  \<^verbatim>\<open>comports()\<close> enumerates, why opening a port fails (if it does), and the bytes the
  device has sent by the time the script looks.
\<close>

record world =
  trace :: "event list"
  stdin :: "keyboard list"
  sigint_in :: "nat option"
  comports :: "port_info list"
  port_fault :: "str \<Rightarrow> str option"
  rx :: "byte list"

text \<open>The \<^verbatim>\<open>serial.Serial\<close> object.\<close>

record serial =
  port :: str
  baudrate :: nat
  timeout :: nat
  is_open :: bool

type_synonym 'a io = "world \<Rightarrow> (exn + 'a) \<times> world"

definition emit :: "event \<Rightarrow> world \<Rightarrow> world" where
  "emit e w = w\<lparr>trace := trace w @ [e]\<rparr>"

text \<open>\<^verbatim>\<open>print(text)\<close>: newline appended, no flush.\<close>

definition print :: "str \<Rightarrow> world \<Rightarrow> world" where
  "print text w = emit (Print (text @ nl) False) w"

text \<open>
  \<^verbatim>\<open>time.sleep\<close>: the call is made, and is cut short by \<^verbatim>\<open>KeyboardInterrupt\<close> when
  the signal arrives before it ends.
\<close>

definition sleep :: "nat \<Rightarrow> unit io" where
  "sleep ms w =
     (let w1 = emit (Sleep ms) w in
      case sigint_in w of
        None \<Rightarrow> (Inr (), w1)
      | Some t \<Rightarrow>
          if t < ms then (Inl KeyboardInterrupt, w1\<lparr>sigint_in := None\<rparr>)
          else (Inr (), w1\<lparr>sigint_in := Some (t - ms)\<rparr>))"

text \<open>\<^verbatim>\<open>ser.write(data)\<close>: the library raises on a port that is not open.\<close>

definition ser_write :: "serial \<Rightarrow> byte list \<Rightarrow> nat io" where
  "ser_write ser data w =
     (if is_open ser then (Inr (length data), emit (SerialWrite data) w)
      else (Inl PortNotOpenError, w))"

section \<open>Command Sender\<close>

text \<open>
  \<^verbatim>\<open>
  def send_command(ser, command):
      ser.write(f"{command}\r\n".encode())
      time.sleep(0.1)
  \<close>
\<close>

definition send_command :: "serial \<Rightarrow> str \<Rightarrow> unit io" where
  "send_command ser command w =
     (case encode (command @ crlf) of
        Inl e \<Rightarrow> (Inl e, w)
      | Inr data \<Rightarrow>
          (case ser_write ser data w of
             (Inl e, w1) \<Rightarrow> (Inl e, w1)
           | (Inr _, w1) \<Rightarrow> sleep 100 w1))"

section \<open>Demo Sequence\<close>

text \<open>\<^verbatim>\<open>str(n)\<close> of a number, as an f-string formats it.\<close>

fun dec :: "nat \<Rightarrow> str" where
  "dec n = (if n < 10 then [48 + n] else dec (n div 10) @ [48 + n mod 10])"

declare dec.simps [simp del]

definition str_int :: "int \<Rightarrow> str" where
  "str_int i = (if i < 0 then 45 # dec (nat (- i)) else dec (nat i))"

definition positions :: "(int \<times> str) list" where
  "positions =
     [(0, ascii ''Minimum position''),
      (1024, ascii ''Quarter position''),
      (2048, ascii ''Center position''),
      (3072, ascii ''Three-quarter position''),
      (4095, ascii ''Maximum position''),
      (2048, ascii ''Back to center'')]"

text \<open>
  The loop of \<^verbatim>\<open>demo_mode\<close>:
  \<^verbatim>\<open>
  for pos, desc in positions:
      print(f"\n{desc}...")
      send_command(ser, f"POS {pos}")
      time.sleep(2)
  \<close>
\<close>

fun demo_steps :: "serial \<Rightarrow> (int \<times> str) list \<Rightarrow> unit io" where
  "demo_steps ser [] w = (Inr (), w)"
| "demo_steps ser ((pos, desc) # rest) w =
     (let w1 = print (nl @ desc @ ascii ''...'') w in
      case send_command ser (ascii ''POS '' @ str_int pos) w1 of
        (Inl e, w2) \<Rightarrow> (Inl e, w2)
      | (Inr _, w2) \<Rightarrow>
          (case sleep 2000 w2 of
             (Inl e, w3) \<Rightarrow> (Inl e, w3)
           | (Inr _, w3) \<Rightarrow> demo_steps ser rest w3))"

definition demo_mode :: "serial \<Rightarrow> unit io" where
  "demo_mode ser w =
     (let w1 = print (nl @ ascii ''=== DEMO MODE ==='') w;
          w2 = print (ascii ''Running motor demo sequence...'') w1
      in case demo_steps ser positions w2 of
           (Inl e, w3) \<Rightarrow> (Inl e, w3)
         | (Inr _, w3) \<Rightarrow> (Inr (), print (nl @ ascii ''Demo complete!'') w3))"

section \<open>Interactive Session\<close>

text \<open>
  The interpreter's text primitives the script calls. On ASCII text they are fixed:
  \<^verbatim>\<open>upper\<close> and \<^verbatim>\<open>lower\<close> change the letters a to z and A to Z, and the whitespace
  that \<^verbatim>\<open>strip\<close> removes is tab, line feed, vertical tab, form feed, carriage return,
  the four separators U+001C to U+001F and the space. Beyond ASCII they follow the
  interpreter's Unicode tables, which are parameters of the model: the full upper-case
  mapping of a code point, the lower-casing of a text that is not all ASCII (it depends
  on context), and the whitespace property. \<^verbatim>\<open>int(s)\<close> is a parameter as a whole
  (\<open>None\<close> is \<^verbatim>\<open>ValueError\<close>).
\<close>

record python =
  int_of :: "str \<Rightarrow> int option"
  upper_tab :: "nat \<Rightarrow> str"
  lower_text :: "str \<Rightarrow> str"
  space_tab :: "nat \<Rightarrow> bool"

definition isspace :: "python \<Rightarrow> nat \<Rightarrow> bool" where
  "isspace P c = (if c < 128 then (9 \<le> c \<and> c \<le> 13) \<or> (28 \<le> c \<and> c \<le> 32) else space_tab P c)"

definition strip :: "python \<Rightarrow> str \<Rightarrow> str" where
  "strip P s = rev (dropWhile (isspace P) (rev (dropWhile (isspace P) s)))"

definition upper_char :: "python \<Rightarrow> nat \<Rightarrow> str" where
  "upper_char P c =
     (if c < 128 then [if 97 \<le> c \<and> c \<le> 122 then c - 32 else c] else upper_tab P c)"

definition upper :: "python \<Rightarrow> str \<Rightarrow> str" where
  "upper P s = concat (map (upper_char P) s)"

definition lower :: "python \<Rightarrow> str \<Rightarrow> str" where
  "lower P s =
     (if list_all (\<lambda>c. c < 128) s then map (\<lambda>c. if 65 \<le> c \<and> c \<le> 90 then c + 32 else c) s
      else lower_text P s)"

text \<open>\<^verbatim>\<open>input(prompt)\<close>: end of file raises, and so does the user's interrupt.\<close>

definition input :: "str \<Rightarrow> str io" where
  "input prompt w =
     (let w1 = emit (Input prompt) w in
      case stdin w of
        [] \<Rightarrow> (Inl EOFError, w1)
      | CtrlC # rest \<Rightarrow> (Inl KeyboardInterrupt, w1\<lparr>stdin := rest\<rparr>)
      | Line l # rest \<Rightarrow> (Inr l, w1\<lparr>stdin := rest\<rparr>))"

text \<open>
  The handler of the loop: \<^verbatim>\<open>except KeyboardInterrupt: print("\nExiting..."); break\<close>.
  Any other exception leaves the loop and the function.
\<close>

definition on_interrupt :: "exn \<Rightarrow> unit io" where
  "on_interrupt e w =
     (if e = KeyboardInterrupt then (Inr (), print (nl @ ascii ''Exiting...'') w)
      else (Inl e, w))"

text \<open>
  \<^verbatim>\<open>
  while True:
      try:
          cmd = input().strip()
          if cmd.upper() == "QUIT":
              break
          elif cmd.upper() == "DEMO":
              demo_mode(ser)
          elif cmd:
              send_command(ser, cmd)
      except KeyboardInterrupt:
          print("\nExiting...")
          break
  \<close>
  Every turn of the loop takes one item of standard input, which is finite: the loop
  ends.
\<close>

function interactive_loop :: "python \<Rightarrow> serial \<Rightarrow> unit io" where
  "interactive_loop P ser w =
     (case input [] w of
        (Inl e, w1) \<Rightarrow> on_interrupt e w1
      | (Inr line, w1) \<Rightarrow>
          (let cmd = strip P line in
           if upper P cmd = ascii ''QUIT'' then (Inr (), w1)
           else if upper P cmd = ascii ''DEMO'' then
             (case demo_mode ser w1 of
                (Inl e, w2) \<Rightarrow> on_interrupt e w2
              | (Inr _, w2) \<Rightarrow> interactive_loop P ser w2)
           else if cmd \<noteq> [] then
             (case send_command ser cmd w1 of
                (Inl e, w2) \<Rightarrow> on_interrupt e w2
              | (Inr _, w2) \<Rightarrow> interactive_loop P ser w2)
           else interactive_loop P ser w1))"
  by pat_completeness auto
termination
proof (relation "measure (\<lambda>(P, ser, w). length (stdin w))", goal_cases)
  have sl: "stdin (snd (sleep ms w)) = stdin w" for ms w
    by (simp add: sleep_def emit_def Let_def split: option.splits)
  have sc: "stdin (snd (send_command ser c w)) = stdin w" for ser c w
    by (simp add: send_command_def ser_write_def emit_def sl split: sum.splits)
  have ds: "stdin (snd (demo_steps ser ps w)) = stdin w" for ser ps w
  proof (induction ps arbitrary: w)
    case Nil
    show ?case by simp
  next
    case (Cons p ps)
    obtain pos desc where p: "p = (pos, desc)" by (cases p)
    let ?w1 = "print (nl @ desc @ ascii ''...'') w"
    have a: "stdin ?w1 = stdin w" by (simp add: print_def emit_def)
    obtain r w2 where s2: "send_command ser (ascii ''POS '' @ str_int pos) ?w1 = (r, w2)"
      by (cases "send_command ser (ascii ''POS '' @ str_int pos) ?w1")
    have b: "stdin w2 = stdin w"
      using sc [of ser "ascii ''POS '' @ str_int pos" ?w1] s2 a by simp
    obtain r3 w3 where s3: "sleep 2000 w2 = (r3, w3)" by (cases "sleep 2000 w2")
    have c: "stdin w3 = stdin w" using sl [of 2000 w2] s3 b by simp
    show ?case using s2 s3 b c Cons.IH [of w3]
      by (cases r; cases r3) (simp_all add: p Let_def)
  qed
  have dm: "stdin (snd (demo_mode ser w)) = stdin w" for ser w
  proof -
    let ?w2 = "print (ascii ''Running motor demo sequence...'')
                 (print (nl @ ascii ''=== DEMO MODE ==='') w)"
    have a: "stdin ?w2 = stdin w" by (simp add: print_def emit_def)
    obtain r w3 where s: "demo_steps ser positions ?w2 = (r, w3)"
      by (cases "demo_steps ser positions ?w2")
    have b: "stdin w3 = stdin w" using ds [of ser positions ?w2] s a by simp
    show ?thesis using s b by (cases r) (simp_all add: demo_mode_def Let_def print_def emit_def)
  qed
  have inp: "length (stdin w1) < length (stdin w)" if "input p w = (Inr l, w1)" for p w l w1
    using that by (auto simp: input_def Let_def emit_def split: list.splits keyboard.splits)
  {
    case 1
    show ?case by simp
  next
    case (2 P ser w x w1 line cmd r w2 u)
    have "stdin w2 = stdin w1" using dm [of ser w1] 2 by (metis snd_conv)
    moreover have "length (stdin w1) < length (stdin w)" using inp [of "[]" w line w1] 2 by simp
    ultimately show ?case by simp
  next
    case (3 P ser w x w1 line cmd r w2 u)
    have "stdin w2 = stdin w1" using sc [of ser cmd w1] 3 by (metis snd_conv)
    moreover have "length (stdin w1) < length (stdin w)" using inp [of "[]" w line w1] 3 by simp
    ultimately show ?case by simp
  next
    case (4 P ser w x w1 line cmd)
    show ?case using inp [of "[]" w line w1] 4 by simp
  }
qed

declare interactive_loop.simps [simp del]

text \<open>
  \<^verbatim>\<open>interactive_mode\<close> prints the help banner, starts the reader thread
  (\<open>read_responses\<close> below, which prints on its own schedule) and runs the loop.
\<close>

definition banner :: "str list" where
  "banner =
     [nl @ ascii ''=== INTERACTIVE MODE ==='',
      ascii ''Commands:'',
      ascii ''  POS <0-4095>  - Set motor position'',
      ascii ''  STATUS        - Get current status'',
      ascii ''  HELP          - Show device help'',
      ascii ''  DEMO          - Run demo sequence'',
      ascii ''  QUIT          - Exit'',
      []]"

definition interactive_mode :: "python \<Rightarrow> serial \<Rightarrow> unit io" where
  "interactive_mode P ser w =
     interactive_loop P ser (emit ThreadStart (fold print banner w))"

section \<open>Port Enumerator\<close>

text \<open>The substring test \<^verbatim>\<open>sub in s\<close>, and \<^verbatim>\<open>str(x)\<close> of a value that may be \<^verbatim>\<open>None\<close>.\<close>

fun startswith :: "str \<Rightarrow> str \<Rightarrow> bool" where
  "startswith s [] = True"
| "startswith [] (c # cs) = False"
| "startswith (x # xs) (c # cs) = (x = c \<and> startswith xs cs)"

fun str_in :: "str \<Rightarrow> str \<Rightarrow> bool" where
  "str_in sub [] = (sub = [])"
| "str_in sub (c # cs) = (startswith (c # cs) sub \<or> str_in sub cs)"

definition str_opt :: "str option \<Rightarrow> str" where
  "str_opt x = (case x of None \<Rightarrow> ascii ''None'' | Some s \<Rightarrow> s)"

definition is_motor :: "port_info \<Rightarrow> bool" where
  "is_motor p \<longleftrightarrow>
     str_in (ascii ''Tilta Motor Control'') (description p) \<or>
     str_in (ascii ''Straw Lab'') (str_opt (manufacturer p))"

text \<open>
  \<^verbatim>\<open>
  for i, port in enumerate(ports):
      print(f"{i}: {port.device} - {port.description}")
      if "Tilta Motor Control" in str(port.description) or \
         "Straw Lab" in str(port.manufacturer):
          devices.append(port)
  \<close>
\<close>

fun list_loop :: "nat \<Rightarrow> port_info list \<Rightarrow> port_info list \<Rightarrow> world \<Rightarrow> port_info list \<times> world" where
  "list_loop i [] devices w = (devices, w)"
| "list_loop i (p # ps) devices w =
     (let w1 = print (dec i @ ascii '': '' @ device p @ ascii '' - '' @ description p) w
      in list_loop (i + 1) ps (if is_motor p then devices @ [p] else devices) w1)"

definition list_devices :: "world \<Rightarrow> (port_info list \<times> port_info list) \<times> world" where
  "list_devices w =
     (let ports = comports w;
          (devices, w1) = list_loop 0 ports [] w
      in ((ports, devices), w1))"

section \<open>Connector\<close>

text \<open>The loop that prints the candidates when there are several.\<close>

fun show_devices :: "nat \<Rightarrow> port_info list \<Rightarrow> world \<Rightarrow> world" where
  "show_devices i [] w = w"
| "show_devices i (d # ds) w =
     show_devices (i + 1) ds (print (ascii ''  '' @ dec i @ ascii '': '' @ device d) w)"

text \<open>
  \<^verbatim>\<open>serial.Serial(port_name, 115200, timeout=1)\<close> inside
  \<^verbatim>\<open>try ... except serial.SerialException as e\<close>: the failure is printed with its cause
  and the function returns \<^verbatim>\<open>None\<close>.
\<close>

definition open_port :: "str \<Rightarrow> serial option io" where
  "open_port port_name w =
     (let w1 = emit (SerialOpen port_name 115200 1) w in
      case port_fault w port_name of
        None \<Rightarrow>
          (Inr (Some \<lparr>port = port_name, baudrate = 115200, timeout = 1, is_open = True\<rparr>),
           print (ascii ''Connected to '' @ port_name) w1)
      | Some e \<Rightarrow>
          (Inr None,
           print (ascii ''Failed to connect to '' @ port_name @ ascii '': '' @ e) w1))"

text \<open>
  The body of \<^verbatim>\<open>if not port_name:\<close> in \<^verbatim>\<open>connect_to_device\<close>: it assigns
  \<^verbatim>\<open>port_name\<close> (the result \<open>Some name\<close>) or makes the function return \<^verbatim>\<open>None\<close>
  (the result \<open>None\<close>). \<^verbatim>\<open>int(input(...))\<close> stands in
  \<^verbatim>\<open>try ... except ValueError\<close>; the exceptions of \<^verbatim>\<open>input\<close> itself are not caught.
\<close>

definition choose_port :: "python \<Rightarrow> str option io" where
  "choose_port P w =
     (case list_devices w of ((ports, devices), w1) \<Rightarrow>
        if devices \<noteq> [] then
          (if length devices = 1 then
             (let name = device (devices ! 0) in
              (Inr (Some name),
               print (nl @ ascii ''Auto-detected motor controller on '' @ name) w1))
           else
             (let w2 = print (nl @ ascii ''Found '' @ dec (length devices)
                                @ ascii '' motor controllers:'') w1;
                  w3 = show_devices 0 devices w2
              in case input (ascii ''Select device number: '') w3 of
                   (Inl e, w4) \<Rightarrow> (Inl e, w4)
                 | (Inr line, w4) \<Rightarrow>
                     (case int_of P line of
                        None \<Rightarrow> (Inr None, print (ascii ''Invalid input!'') w4)
                      | Some selection \<Rightarrow>
                          if 0 \<le> selection \<and> selection < int (length devices) then
                            (Inr (Some (device (devices ! nat selection))), w4)
                          else (Inr None, print (ascii ''Invalid selection!'') w4))))
        else
          (if ports = [] then (Inr None, print (ascii ''No serial ports found!'') w1)
           else
             (case input (nl @ ascii ''No motor controller found. Select port number: '') w1 of
                (Inl e, w4) \<Rightarrow> (Inl e, w4)
              | (Inr line, w4) \<Rightarrow>
                  (case int_of P line of
                     None \<Rightarrow> (Inr None, print (ascii ''Invalid input!'') w4)
                   | Some selection \<Rightarrow>
                       if 0 \<le> selection \<and> selection < int (length ports) then
                         (Inr (Some (device (ports ! nat selection))), w4)
                       else (Inr None, print (ascii ''Invalid selection!'') w4)))))"

text \<open>
  \<^verbatim>\<open>connect_to_device(port_name=None)\<close>. \<^verbatim>\<open>not port_name\<close> holds of \<^verbatim>\<open>None\<close> and of
  the empty string.
\<close>

definition connect_to_device :: "python \<Rightarrow> str option \<Rightarrow> serial option io" where
  "connect_to_device P port_name w =
     (case (if port_name = None \<or> port_name = Some [] then choose_port P w
            else (Inr port_name, w)) of
        (Inl e, w1) \<Rightarrow> (Inl e, w1)
      | (Inr None, w1) \<Rightarrow> (Inr None, w1)
      | (Inr (Some name), w1) \<Rightarrow> open_port name w1)"

section \<open>Entry point\<close>

text \<open>
  \<^verbatim>\<open>ser.read(ser.in_waiting)\<close> takes the bytes that wait; \<^verbatim>\<open>ser.close()\<close> closes an
  open port and does nothing on a closed one.
\<close>

definition ser_read :: "nat \<Rightarrow> world \<Rightarrow> world" where
  "ser_read n w = (emit (SerialRead (take n (rx w))) w)\<lparr>rx := drop n (rx w)\<rparr>"

definition ser_close :: "serial \<Rightarrow> world \<Rightarrow> world" where
  "ser_close ser w = (if is_open ser then emit SerialClose w else w)"

text \<open>
  \<^verbatim>\<open>
  ser = connect_to_device()
  if not ser:
      return
  time.sleep(1)
  if ser.in_waiting:
      ser.read(ser.in_waiting)
  if len(sys.argv) > 1 and sys.argv[1].lower() == "demo":
      demo_mode(ser)
  else:
      interactive_mode(ser)
  ser.close()
  print("Disconnected")
  \<close>
\<close>

definition main :: "python \<Rightarrow> str list \<Rightarrow> unit io" where
  "main P argv w =
     (let w1 = print (ascii ''Tilta Nucleus Nano 2 Motor Control'') w;
          w2 = print (ascii ''==================================='') w1
      in case connect_to_device P None w2 of
           (Inl e, w3) \<Rightarrow> (Inl e, w3)
         | (Inr None, w3) \<Rightarrow> (Inr (), w3)
         | (Inr (Some ser), w3) \<Rightarrow>
             (case sleep 1000 w3 of
                (Inl e, w4) \<Rightarrow> (Inl e, w4)
              | (Inr _, w4) \<Rightarrow>
                  (let w5 = (if rx w4 \<noteq> [] then ser_read (length (rx w4)) w4 else w4) in
                   case (if length argv > 1 \<and> lower P (argv ! 1) = ascii ''demo''
                         then demo_mode ser w5 else interactive_mode P ser w5) of
                     (Inl e, w6) \<Rightarrow> (Inl e, w6)
                   | (Inr _, w6) \<Rightarrow>
                       (Inr (), print (ascii ''Disconnected'') (ser_close ser w6)))))"

text \<open>How often the trace closes the connection, and what it puts on the wire.\<close>

definition closes :: "event list \<Rightarrow> nat" where
  "closes t = length (filter (\<lambda>e. e = SerialClose) t)"

fun wire :: "event list \<Rightarrow> byte list" where
  "wire [] = []"
| "wire (SerialWrite b # t) = b @ wire t"
| "wire (e # t) = wire t"

definition opens :: "event list \<Rightarrow> str list" where
  "opens t = concat (map (\<lambda>e. case e of SerialOpen p _ _ \<Rightarrow> [p] | _ \<Rightarrow> []) t)"

definition prompts :: "event list \<Rightarrow> str list" where
  "prompts t = concat (map (\<lambda>e. case e of Input p \<Rightarrow> [p] | _ \<Rightarrow> []) t)"

definition bytes_of :: "string \<Rightarrow> byte list" where
  "bytes_of s = map of_char s"

text \<open>
  A sample interpreter (decimal digits with an optional minus sign for \<^verbatim>\<open>int\<close>, nothing
  beyond ASCII changes case or is whitespace), a sample environment and a sample
  connection, for concrete runs.
\<close>

fun digits_val :: "nat \<Rightarrow> str \<Rightarrow> nat option" where
  "digits_val acc [] = Some acc"
| "digits_val acc (c # cs) =
     (if 48 \<le> c \<and> c \<le> 57 then digits_val (10 * acc + (c - 48)) cs else None)"

definition plain_int :: "str \<Rightarrow> int option" where
  "plain_int s =
     (case s of
        [] \<Rightarrow> None
      | c # cs \<Rightarrow>
          if c = 45 \<and> cs \<noteq> [] then map_option (\<lambda>n. - int n) (digits_val 0 cs)
          else map_option int (digits_val 0 s))"

definition plain_python :: python where
  "plain_python =
     \<lparr>int_of = plain_int, upper_tab = (\<lambda>c. [c]), lower_text = (\<lambda>s. s),
      space_tab = (\<lambda>c. False)\<rparr>"

definition quiet :: world where
  "quiet =
     \<lparr>trace = [], stdin = [], sigint_in = None, comports = [],
      port_fault = (\<lambda>p. None), rx = []\<rparr>"

definition acm0 :: serial where
  "acm0 = \<lparr>port = ascii ''/dev/ttyACM0'', baudrate = 115200, timeout = 1, is_open = True\<rparr>"

definition tilta :: port_info where
  "tilta =
     \<lparr>device = ascii ''/dev/ttyACM0'', description = ascii ''Tilta Motor Control'',
      manufacturer = None\<rparr>"

section \<open>Reader Loop\<close>

text \<open>
  \<^verbatim>\<open>bytes.decode('utf-8', errors=...)\<close>. The decoder scans the bytes into code points
  and ill-formed stretches; the error handler decides what an ill-formed stretch
  becomes. A lead byte followed by a byte that cannot continue it is ill-formed alone, a
  well-begun sequence broken later is ill-formed up to the break, and a sequence cut by
  the end of the data is ill-formed as a whole.
\<close>

datatype scanned = Cp nat | Bad

definition is_cont :: "byte \<Rightarrow> bool" where
  "is_cont b \<longleftrightarrow> 0x80 \<le> unat b \<and> unat b < 0xC0"

text \<open>
  The second byte after a three- or four-byte lead: overlong forms, surrogates and values
  above U+10FFFF are excluded here.
\<close>

definition second_ok :: "nat \<Rightarrow> byte \<Rightarrow> bool" where
  "second_ok lead b \<longleftrightarrow>
     is_cont b \<and>
     (if lead = 0xE0 then 0xA0 \<le> unat b
      else if lead = 0xED then unat b < 0xA0
      else if lead = 0xF0 then 0x90 \<le> unat b
      else if lead = 0xF4 then unat b < 0x90
      else True)"

fun utf8_scan :: "byte list \<Rightarrow> scanned list" where
  "utf8_scan [] = []"
| "utf8_scan (b # bs) =
     (let n = unat b in
      if n < 0x80 then Cp n # utf8_scan bs
      else if n < 0xC2 then Bad # utf8_scan bs
      else if n < 0xE0 then
        (case bs of
           [] \<Rightarrow> [Bad]
         | b2 # r2 \<Rightarrow>
             if is_cont b2 then Cp (n mod 32 * 64 + unat b2 mod 64) # utf8_scan r2
             else Bad # utf8_scan bs)
      else if n < 0xF0 then
        (case bs of
           [] \<Rightarrow> [Bad]
         | b2 # r2 \<Rightarrow>
             if \<not> second_ok n b2 then Bad # utf8_scan bs
             else
               (case r2 of
                  [] \<Rightarrow> [Bad]
                | b3 # r3 \<Rightarrow>
                    if is_cont b3 then
                      Cp (n mod 16 * 4096 + unat b2 mod 64 * 64 + unat b3 mod 64) # utf8_scan r3
                    else Bad # utf8_scan r2))
      else if n < 0xF5 then
        (case bs of
           [] \<Rightarrow> [Bad]
         | b2 # r2 \<Rightarrow>
             if \<not> second_ok n b2 then Bad # utf8_scan bs
             else
               (case r2 of
                  [] \<Rightarrow> [Bad]
                | b3 # r3 \<Rightarrow>
                    if \<not> is_cont b3 then Bad # utf8_scan r2
                    else
                      (case r3 of
                         [] \<Rightarrow> [Bad]
                       | b4 # r4 \<Rightarrow>
                           if is_cont b4 then
                             Cp (n mod 8 * 262144 + unat b2 mod 64 * 4096
                                 + unat b3 mod 64 * 64 + unat b4 mod 64) # utf8_scan r4
                           else Bad # utf8_scan r3)))
      else Bad # utf8_scan bs)"

datatype errors = Strict | Ignore | Replace

datatype decode_error = UnicodeDecodeError

definition decode :: "errors \<Rightarrow> byte list \<Rightarrow> decode_error + str" where
  "decode h bs =
     (case h of
        Strict \<Rightarrow>
          if Bad \<in> set (utf8_scan bs) then Inl UnicodeDecodeError
          else Inr (concat (map (\<lambda>x. case x of Cp c \<Rightarrow> [c] | Bad \<Rightarrow> []) (utf8_scan bs)))
      | Ignore \<Rightarrow> Inr (concat (map (\<lambda>x. case x of Cp c \<Rightarrow> [c] | Bad \<Rightarrow> []) (utf8_scan bs)))
      | Replace \<Rightarrow> Inr (map (\<lambda>x. case x of Cp c \<Rightarrow> c | Bad \<Rightarrow> 0xFFFD) (utf8_scan bs)))"

text \<open>
  What the reader thread meets at one turn of its loop, while the connection reports
  open: no byte waiting, a chunk that \<^verbatim>\<open>ser.read(ser.in_waiting)\<close> returns, or an error
  of the serial library. When the list is over the connection reports closed.
\<close>

datatype poll = Idle | Chunk "byte list" | Fault

text \<open>
  \<^verbatim>\<open>
  while ser.is_open:
      try:
          if ser.in_waiting:
              response = ser.read(ser.in_waiting).decode('utf-8', errors='ignore')
              print(response, end='', flush=True)
      except:
          break
      time.sleep(0.01)
  \<close>
  The events are those of the thread, in its own order; how they interleave with the
  events of the main thread is not modelled.
\<close>

fun read_responses :: "poll list \<Rightarrow> event list" where
  "read_responses [] = []"
| "read_responses (Idle # ps) = Sleep 10 # read_responses ps"
| "read_responses (Chunk bs # ps) =
     (case decode Ignore bs of
        Inl e \<Rightarrow> []
      | Inr response \<Rightarrow> SerialRead bs # Print response True # Sleep 10 # read_responses ps)"
| "read_responses (Fault # ps) = []"

text \<open>
  The Demo Sequence in the words of the specification: six position commands, in the order
  0, 1024, 2048, 3072, 4095, 2048, each after its label and each followed by the grace
  sleep of the Command Sender and a pause of two seconds.
\<close>

definition spec_step :: "string \<Rightarrow> string \<Rightarrow> event list" where
  "spec_step label n =
     [Print (nl @ ascii label @ ascii ''...'' @ nl) False,
      SerialWrite (bytes_of ''POS '' @ bytes_of n @ [13, 10]),
      Sleep 100,
      Sleep 2000]"

definition spec_demo :: "event list" where
  "spec_demo =
     [Print (nl @ ascii ''=== DEMO MODE ==='' @ nl) False,
      Print (ascii ''Running motor demo sequence...'' @ nl) False]
     @ spec_step ''Minimum position'' ''0''
     @ spec_step ''Quarter position'' ''1024''
     @ spec_step ''Center position'' ''2048''
     @ spec_step ''Three-quarter position'' ''3072''
     @ spec_step ''Maximum position'' ''4095''
     @ spec_step ''Back to center'' ''2048''
     @ [Print (nl @ ascii ''Demo complete!'' @ nl) False]"

text \<open>Two more sample ports: one matched by its manufacturer, one that differs in case only.\<close>

definition straw :: port_info where
  "straw =
     \<lparr>device = ascii ''/dev/ttyACM1'', description = ascii ''USB Serial'',
      manufacturer = Some (ascii ''Straw Lab Inc'')\<rparr>"

definition lowercase_port :: port_info where
  "lowercase_port =
     \<lparr>device = ascii ''/dev/ttyUSB0'', description = ascii ''tilta motor control'',
      manufacturer = Some (ascii ''straw lab'')\<rparr>"

text \<open>
  The Reader Loop in the words of the specification: a chunk is decoded as UTF-8 with
  undecodable bytes replaced (by U+FFFD), and the text is printed with a flush.
\<close>

definition spec_read_chunk :: "byte list \<Rightarrow> event list" where
  "spec_read_chunk bs =
     (case decode Replace bs of
        Inl e \<Rightarrow> []
      | Inr text \<Rightarrow> [SerialRead bs, Print text True, Sleep 10])"

section \<open>Properties\<close>

lemma encode_append:
  "encode (s @ t) =
     (case encode s of
        Inl e \<Rightarrow> Inl e
      | Inr a \<Rightarrow> (case encode t of Inl e \<Rightarrow> Inl e | Inr b \<Rightarrow> Inr (a @ b)))"
  by (induction s) (auto split: sum.splits)

lemma encode_crlf: "encode crlf = Inr [13, 10]"
  by (simp add: crlf_def utf8_char_def)

lemma trace_sleep: "trace (snd (sleep ms w)) = trace w @ [Sleep ms]"
  by (simp add: sleep_def emit_def Let_def split: option.splits)

subsection \<open>Command Sender\<close>

lemma send_command_run:
  assumes "is_open ser" and "encode T = Inr b"
  shows "send_command ser T w = sleep 100 (emit (SerialWrite (b @ [13, 10])) w)"
  using assms by (simp add: send_command_def ser_write_def encode_append encode_crlf)

text \<open>
  Claim C1. For every text \<open>T\<close> passed to \<open>send_command\<close> on an open connection, the bytes
  written are exactly the UTF-8 encoding of \<open>T\<close> followed by CR LF, unchanged, and the
  write is followed by a sleep of 100 ms. (A text with a surrogate code point has no UTF-8
  encoding; the write of the serial library fails on a closed port.)
\<close>

theorem send_command_bytes:
  assumes "is_open ser" and "encode T = Inr b"
  shows "trace (snd (send_command ser T w)) = trace w @ [SerialWrite (b @ [13, 10]), Sleep 100]"
  using assms by (simp add: send_command_run trace_sleep emit_def)

theorem send_command_bytes_witness:
  "is_open acm0 \<and> encode (ascii ''pos 10'') = Inr (bytes_of ''pos 10'')
   \<and> trace (snd (send_command acm0 (ascii ''pos 10'') quiet))
       = [SerialWrite (bytes_of ''pos 10'' @ [13, 10]), Sleep 100]"
proof -
  have o: "is_open acm0" by (simp add: acm0_def)
  have e: "encode (ascii ''pos 10'') = Inr (bytes_of ''pos 10'')"
    by (simp add: ascii_def bytes_of_def utf8_char_def)
  show ?thesis using o e send_command_bytes [OF o e, of quiet] by (simp add: quiet_def)
qed

subsection \<open>Demo Sequence\<close>

lemma send_command_trace:
  assumes "fst (send_command ser T w) = Inr ()"
  shows "trace (snd (send_command ser T w))
           = trace w @ [SerialWrite (projr (encode (T @ crlf))), Sleep 100]"
proof (cases "encode (T @ crlf)")
  case (Inl e)
  then show ?thesis using assms by (simp add: send_command_def)
next
  case (Inr data)
  show ?thesis
  proof (cases "is_open ser")
    case True
    then show ?thesis using Inr
      by (simp add: send_command_def ser_write_def trace_sleep emit_def)
  next
    case False
    then show ?thesis using Inr assms by (simp add: send_command_def ser_write_def)
  qed
qed

lemma demo_steps_trace:
  "fst (demo_steps ser ps w) = Inr () \<Longrightarrow>
   trace (snd (demo_steps ser ps w))
     = trace w @ concat (map (\<lambda>(pos, desc).
         [Print (nl @ desc @ ascii ''...'' @ nl) False,
          SerialWrite (projr (encode (ascii ''POS '' @ str_int pos @ crlf))),
          Sleep 100, Sleep 2000]) ps)"
proof (induction ps arbitrary: w)
  case Nil
  show ?case by simp
next
  case (Cons p ps)
  obtain pos desc where p: "p = (pos, desc)" by (cases p)
  let ?w1 = "print (nl @ desc @ ascii ''...'') w"
  let ?T = "ascii ''POS '' @ str_int pos"
  obtain r2 w2 where s2: "send_command ser ?T ?w1 = (r2, w2)" by (cases "send_command ser ?T ?w1")
  obtain r3 w3 where s3: "sleep 2000 w2 = (r3, w3)" by (cases "sleep 2000 w2")
  from Cons.prems have r2: "r2 = Inr ()"
    using s2 by (cases r2) (simp_all add: p Let_def)
  from Cons.prems have r3: "r3 = Inr ()"
    using s2 s3 r2 by (cases r3) (simp_all add: p Let_def)
  have run: "demo_steps ser (p # ps) w = demo_steps ser ps w3"
    using s2 s3 r2 r3 by (simp add: p Let_def)
  have t2: "trace w2 = trace ?w1 @ [SerialWrite (projr (encode (?T @ crlf))), Sleep 100]"
    using send_command_trace [of ser ?T ?w1] s2 r2 by simp
  have t3: "trace w3 = trace w2 @ [Sleep 2000]"
    using trace_sleep [of 2000 w2] s3 by simp
  have "fst (demo_steps ser ps w3) = Inr ()" using Cons.prems run by simp
  from Cons.IH [OF this]
  have "trace (snd (demo_steps ser ps w3))
          = trace w @ [Print (nl @ desc @ ascii ''...'' @ nl) False,
              SerialWrite (projr (encode (?T @ crlf))), Sleep 100, Sleep 2000]
            @ concat (map (\<lambda>(pos, desc).
               [Print (nl @ desc @ ascii ''...'' @ nl) False,
                SerialWrite (projr (encode (ascii ''POS '' @ str_int pos @ crlf))),
                Sleep 100, Sleep 2000]) ps)"
    by (simp add: t3 t2 print_def emit_def)
  then show ?case unfolding run by (simp add: p)
qed

lemma positions_events:
  "concat (map (\<lambda>(pos, desc).
         [Print (nl @ desc @ ascii ''...'' @ nl) False,
          SerialWrite (projr (encode (ascii ''POS '' @ str_int pos @ crlf))),
          Sleep 100, Sleep 2000]) positions)
   = spec_step ''Minimum position'' ''0''
     @ spec_step ''Quarter position'' ''1024''
     @ spec_step ''Center position'' ''2048''
     @ spec_step ''Three-quarter position'' ''3072''
     @ spec_step ''Maximum position'' ''4095''
     @ spec_step ''Back to center'' ''2048''"
  by (simp add: positions_def spec_step_def str_int_def dec.simps ascii_def bytes_of_def
      utf8_char_def crlf_def)

lemma demo_mode_trace:
  assumes "fst (demo_mode ser w) = Inr ()"
  shows "trace (snd (demo_mode ser w)) = trace w @ spec_demo"
proof -
  let ?w2 = "print (ascii ''Running motor demo sequence...'')
               (print (nl @ ascii ''=== DEMO MODE ==='') w)"
  obtain r w3 where s: "demo_steps ser positions ?w2 = (r, w3)"
    by (cases "demo_steps ser positions ?w2")
  have r: "r = Inr ()" using assms s by (cases r) (simp_all add: demo_mode_def Let_def)
  have "trace w3 = trace ?w2 @ spec_step ''Minimum position'' ''0''
     @ spec_step ''Quarter position'' ''1024''
     @ spec_step ''Center position'' ''2048''
     @ spec_step ''Three-quarter position'' ''3072''
     @ spec_step ''Maximum position'' ''4095''
     @ spec_step ''Back to center'' ''2048''"
    using demo_steps_trace [of ser positions ?w2] s r positions_events by simp
  then show ?thesis using s r
    by (simp add: demo_mode_def Let_def spec_demo_def print_def emit_def)
qed

lemma sleep_quiet: "sigint_in w = None \<Longrightarrow> sleep ms w = (Inr (), emit (Sleep ms) w)"
  by (simp add: sleep_def)

lemma demo_mode_returns:
  assumes "is_open ser" and "sigint_in w = None"
  shows "fst (demo_mode ser w) = Inr ()"
  using assms
  by (simp add: demo_mode_def positions_def Let_def send_command_def ser_write_def
      str_int_def dec.simps ascii_def utf8_char_def crlf_def sleep_quiet print_def emit_def)

text \<open>
  Claim C2. A run of \<open>demo_mode\<close> that returns has sent exactly the six commands
  \<^verbatim>\<open>POS 0\<close>, \<^verbatim>\<open>POS 1024\<close>, \<^verbatim>\<open>POS 2048\<close>, \<^verbatim>\<open>POS 3072\<close>, \<^verbatim>\<open>POS 4095\<close>,
  \<^verbatim>\<open>POS 2048\<close> in this order, each after the print of its label and each followed by
  the pause of two seconds, nothing skipped, repeated or reordered; and on an open
  connection, with no interrupt, the run does return.
\<close>

theorem demo_mode_sequence:
  "(is_open ser \<and> sigint_in w = None \<longrightarrow> fst (demo_mode ser w) = Inr ()) \<and>
   (fst (demo_mode ser w) = Inr () \<longrightarrow> trace (snd (demo_mode ser w)) = trace w @ spec_demo)"
  using demo_mode_returns demo_mode_trace by blast

theorem demo_mode_sequence_witness:
  "is_open acm0 \<and> sigint_in quiet = None \<and> fst (demo_mode acm0 quiet) = Inr () \<and>
   trace (snd (demo_mode acm0 quiet)) = spec_demo \<and>
   wire spec_demo = bytes_of ''POS 0'' @ [13, 10] @ bytes_of ''POS 1024'' @ [13, 10]
     @ bytes_of ''POS 2048'' @ [13, 10] @ bytes_of ''POS 3072'' @ [13, 10]
     @ bytes_of ''POS 4095'' @ [13, 10] @ bytes_of ''POS 2048'' @ [13, 10]"
proof -
  have o: "is_open acm0 \<and> sigint_in quiet = None" by (simp add: acm0_def quiet_def)
  have w: "wire spec_demo = bytes_of ''POS 0'' @ [13, 10] @ bytes_of ''POS 1024'' @ [13, 10]
     @ bytes_of ''POS 2048'' @ [13, 10] @ bytes_of ''POS 3072'' @ [13, 10]
     @ bytes_of ''POS 4095'' @ [13, 10] @ bytes_of ''POS 2048'' @ [13, 10]"
    by (simp add: spec_demo_def spec_step_def bytes_of_def)
  have t: "trace quiet = []" by (simp add: quiet_def)
  show ?thesis using o w t demo_mode_sequence [of acm0 quiet] by simp
qed

subsection \<open>Interactive Session\<close>

lemma demo_mode_run:
  assumes "is_open ser" and "sigint_in w = None"
  shows "demo_mode ser w = (Inr (), w\<lparr>trace := trace w @ spec_demo\<rparr>)"
  using assms
  by (simp add: demo_mode_def positions_def Let_def send_command_def ser_write_def
      str_int_def dec.simps ascii_def utf8_char_def crlf_def sleep_quiet print_def emit_def
      spec_demo_def spec_step_def bytes_of_def nl_def)

lemma strip_idem: "strip P (strip P s) = strip P s"
proof -
  let ?d = "dropWhile (isspace P)"
  have a: "?d (?d xs) = ?d xs" for xs :: "nat list" by simp
  have b: "?d (rev (?d (rev (?d s)))) = rev (?d (rev (?d s)))"
  proof (cases "?d (rev (?d s))")
    case Nil
    show ?thesis unfolding Nil by simp
  next
    case (Cons x xs)
    have "?d s \<noteq> []"
    proof
      assume "?d s = []"
      then have "?d (rev (?d s)) = []" by (simp only: rev.simps dropWhile.simps)
      with Cons show False by simp
    qed
    then have h: "\<not> isspace P (hd (?d s))" by (simp add: hd_dropWhile)
    have "\<exists>ys. rev (?d s) = ys @ ?d (rev (?d s))"
      by (metis takeWhile_dropWhile_id)
    then obtain ys where ys: "rev (?d s) = ys @ ?d (rev (?d s))" by blast
    then have "?d s = rev (?d (rev (?d s))) @ rev ys" by (metis rev_append rev_rev_ident)
    moreover have "rev (?d (rev (?d s))) \<noteq> []" using Cons by simp
    ultimately have "hd (rev (?d (rev (?d s)))) = hd (?d s)" by (metis hd_append2)
    with h have "\<not> isspace P (hd (rev (?d (rev (?d s)))))" by simp
    then show ?thesis using \<open>rev (?d (rev (?d s))) \<noteq> []\<close>
      by (cases "rev (?d (rev (?d s)))") simp_all
  qed
  show ?thesis unfolding strip_def by (simp add: b)
qed

lemma dropWhile_nil_hd: "dropWhile p xs \<noteq> [] \<Longrightarrow> \<not> p (hd (dropWhile p xs))"
  by (simp add: hd_dropWhile)

lemma strip_nil_iff: "strip P s = [] \<longleftrightarrow> list_all (isspace P) s"
proof
  assume "list_all (isspace P) s"
  then have "dropWhile (isspace P) s = []" by (simp add: list_all_iff)
  then show "strip P s = []" unfolding strip_def by (simp only: rev.simps dropWhile.simps)
next
  assume a: "strip P s = []"
  let ?d = "dropWhile (isspace P)"
  from a have e: "?d (rev (?d s)) = []" unfolding strip_def by simp
  have "?d s = []"
  proof (rule ccontr)
    assume n: "?d s \<noteq> []"
    then have h: "\<not> isspace P (hd (?d s))" by (rule dropWhile_nil_hd)
    from e have "\<forall>x\<in>set (rev (?d s)). isspace P x" by (simp only: dropWhile_eq_Nil_conv)
    moreover have "hd (?d s) \<in> set (rev (?d s))" using n by simp
    ultimately show False using h by blast
  qed
  then show "list_all (isspace P) s" by (simp add: list_all_iff)
qed

lemma strip_nil: "strip P [] = []"
  by (simp add: strip_def)

lemma upper_nil: "upper P [] = []"
  by (simp add: upper_def)


lemma stdin_trace_swap:
  "w\<lparr>stdin := r, trace := t\<rparr> = (w\<lparr>trace := t, stdin := r\<rparr> :: world)"
  by (cases w) simp

lemma input_line:
  "stdin w = Line l # rest \<Longrightarrow> input p w = (Inr l, (emit (Input p) w)\<lparr>stdin := rest\<rparr>)"
  by (simp add: input_def emit_def)

lemma loop_line:
  assumes "stdin w = Line l # rest"
  shows "interactive_loop P ser w =
     (if upper P (strip P l) = ascii ''QUIT'' then (Inr (), (emit (Input []) w)\<lparr>stdin := rest\<rparr>)
      else if upper P (strip P l) = ascii ''DEMO'' then
        (case demo_mode ser ((emit (Input []) w)\<lparr>stdin := rest\<rparr>) of
           (Inl e, w2) \<Rightarrow> on_interrupt e w2
         | (Inr _, w2) \<Rightarrow> interactive_loop P ser w2)
      else if strip P l \<noteq> [] then
        (case send_command ser (strip P l) ((emit (Input []) w)\<lparr>stdin := rest\<rparr>) of
           (Inl e, w2) \<Rightarrow> on_interrupt e w2
         | (Inr _, w2) \<Rightarrow> interactive_loop P ser w2)
      else interactive_loop P ser ((emit (Input []) w)\<lparr>stdin := rest\<rparr>))"
  by (subst interactive_loop.simps) (simp add: input_line [OF assms] Let_def)

lemma loop_eof:
  "stdin w = [] \<Longrightarrow> interactive_loop P ser w = (Inl EOFError, emit (Input []) w)"
  by (subst interactive_loop.simps) (simp add: input_def on_interrupt_def)

lemma loop_ctrlc:
  "stdin w = CtrlC # rest \<Longrightarrow>
   interactive_loop P ser w =
     (Inr (), print (nl @ ascii ''Exiting...'') ((emit (Input []) w)\<lparr>stdin := rest\<rparr>))"
  by (subst interactive_loop.simps) (simp add: input_def on_interrupt_def emit_def)

lemma quit_not_demo: "ascii ''QUIT'' \<noteq> ascii ''DEMO''" "ascii ''QUIT'' \<noteq> []" "ascii ''DEMO'' \<noteq> []"
  by (simp_all add: ascii_def)

lemma loop_quit:
  assumes "stdin w = Line l # rest" and "upper P (strip P l) = ascii ''QUIT''"
  shows "interactive_loop P ser w = (Inr (), w\<lparr>trace := trace w @ [Input []], stdin := rest\<rparr>)"
  by (simp add: loop_line [OF assms(1)] assms(2) emit_def)

lemma loop_demo:
  assumes "stdin w = Line l # rest" and "upper P (strip P l) = ascii ''DEMO''"
    and "is_open ser" and "sigint_in w = None"
  shows "interactive_loop P ser w =
           interactive_loop P ser (w\<lparr>trace := trace w @ Input [] # spec_demo, stdin := rest\<rparr>)"
proof -
  have q: "sigint_in ((emit (Input []) w)\<lparr>stdin := rest\<rparr>) = None"
    using assms(4) by (simp add: emit_def)
  show ?thesis using quit_not_demo
    by (simp add: loop_line [OF assms(1)] assms(2) demo_mode_run [OF assms(3) q])
       (simp add: emit_def stdin_trace_swap)
qed

lemma loop_blank:
  assumes "stdin w = Line l # rest" and "strip P l = []"
  shows "interactive_loop P ser w =
           interactive_loop P ser (w\<lparr>trace := trace w @ [Input []], stdin := rest\<rparr>)"
  using quit_not_demo by (simp add: loop_line [OF assms(1)] assms(2) upper_nil emit_def)

lemma loop_send:
  assumes "stdin w = Line l # rest" and "strip P l \<noteq> []"
    and "upper P (strip P l) \<noteq> ascii ''QUIT''" and "upper P (strip P l) \<noteq> ascii ''DEMO''"
    and "is_open ser" and "sigint_in w = None" and "encode (strip P l) = Inr b"
  shows "interactive_loop P ser w =
           interactive_loop P ser
             (w\<lparr>trace := trace w @ [Input [], SerialWrite (b @ [13, 10]), Sleep 100],
                stdin := rest\<rparr>)"
  by (simp add: loop_line [OF assms(1)] assms(2,3,4) send_command_run [OF assms(5) assms(7)]
        sleep_quiet emit_def assms(6) stdin_trace_swap)

lemma plain_strip:
  "strip plain_python (ascii '' x'') = ascii ''x''"
  "strip plain_python (ascii ''QuIt'') = ascii ''QuIt''"
  "strip plain_python (ascii ''demo'') = ascii ''demo''"
  "strip plain_python (ascii ''pos 10'') = ascii ''pos 10''"
  "strip plain_python (ascii ''  quit  '') = ascii ''quit''"
  "strip plain_python (ascii ''  pos 10 '') = ascii ''pos 10''"
  "strip plain_python [32, 9] = []"
  by (simp_all add: strip_def isspace_def plain_python_def ascii_def)

lemma plain_upper:
  "upper plain_python (ascii ''x'') = ascii ''X''"
  "upper plain_python (ascii ''QuIt'') = ascii ''QUIT''"
  "upper plain_python (ascii ''quit'') = ascii ''QUIT''"
  "upper plain_python (ascii ''demo'') = ascii ''DEMO''"
  "upper plain_python (ascii ''pos 10'') = ascii ''POS 10''"
  by (simp_all add: upper_def upper_char_def plain_python_def ascii_def)

lemma plain_encode:
  "encode (ascii ''x'') = Inr (bytes_of ''x'')"
  "encode (ascii ''pos 10'') = Inr (bytes_of ''pos 10'')"
  by (simp_all add: ascii_def bytes_of_def utf8_char_def)

lemma strip_decomp:
  "\<exists>pre post. l = pre @ strip P l @ post \<and> list_all (isspace P) pre \<and> list_all (isspace P) post"
proof -
  let ?p = "isspace P"
  let ?d = "dropWhile ?p l"
  have 1: "l = takeWhile ?p l @ ?d" by simp
  have "?d = rev (rev ?d)" by simp
  also have "\<dots> = rev (takeWhile ?p (rev ?d) @ dropWhile ?p (rev ?d))"
    by (simp only: takeWhile_dropWhile_id)
  also have "\<dots> = rev (dropWhile ?p (rev ?d)) @ rev (takeWhile ?p (rev ?d))"
    by (simp only: rev_append)
  finally have 2: "?d = strip P l @ rev (takeWhile ?p (rev ?d))"
    by (simp only: strip_def)
  have 3: "list_all ?p (takeWhile ?p l)" by (auto simp: list_all_iff dest: set_takeWhileD)
  have 4: "list_all ?p (rev (takeWhile ?p (rev ?d)))"
    by (auto simp: list_all_iff dest: set_takeWhileD)
  from 1 2 have "l = takeWhile ?p l @ strip P l @ rev (takeWhile ?p (rev ?d))" by simp
  with 3 4 show ?thesis by blast
qed

lemma loop_stdin_cong:
  assumes "stdin w = Line l # rest" and "strip P l' = strip P l"
  shows "interactive_loop P ser (w\<lparr>stdin := Line l' # rest\<rparr>) = interactive_loop P ser w"
proof -
  have s: "stdin (w\<lparr>stdin := Line l' # rest\<rparr>) = Line l' # rest" by simp
  show ?thesis by (simp add: loop_line [OF s] loop_line [OF assms(1)] assms(2) emit_def)
qed

text \<open>
  Claim C3, as the code has it. The loop dispatches on the line with its surrounding
  whitespace removed, so the claim holds of a line that has none: a line that upper-cases
  to \<^verbatim>\<open>QUIT\<close> ends the loop with nothing sent; a line that upper-cases to \<^verbatim>\<open>DEMO\<close> runs
  the Demo Sequence and is not itself sent; an empty line does nothing; any other line
  is sent, followed by CR LF (on an open connection, with no interrupt, a line that has a
  UTF-8 encoding).
\<close>

theorem interactive_dispatch:
  assumes "stdin w = Line l # rest" and "strip P l = l"
    and "is_open ser" and "sigint_in w = None"
  shows "(upper P l = ascii ''QUIT'' \<longrightarrow>
            interactive_loop P ser w = (Inr (), w\<lparr>trace := trace w @ [Input []], stdin := rest\<rparr>))
       \<and> (upper P l = ascii ''DEMO'' \<longrightarrow>
            interactive_loop P ser w =
              interactive_loop P ser (w\<lparr>trace := trace w @ Input [] # spec_demo, stdin := rest\<rparr>))
       \<and> (l = [] \<longrightarrow>
            interactive_loop P ser w =
              interactive_loop P ser (w\<lparr>trace := trace w @ [Input []], stdin := rest\<rparr>))
       \<and> (l \<noteq> [] \<and> upper P l \<noteq> ascii ''QUIT'' \<and> upper P l \<noteq> ascii ''DEMO'' \<and> encode l = Inr b \<longrightarrow>
            interactive_loop P ser w =
              interactive_loop P ser
                (w\<lparr>trace := trace w @ [Input [], SerialWrite (b @ [13, 10]), Sleep 100],
                   stdin := rest\<rparr>))"
  using loop_quit [OF assms(1), of P ser] loop_demo [OF assms(1) _ assms(3,4), of P]
    loop_blank [OF assms(1), of P ser] loop_send [OF assms(1) _ _ _ assms(3,4), of P b]
  by (simp add: assms(2))

theorem interactive_dispatch_witness:
  "interactive_loop plain_python acm0 (quiet\<lparr>stdin := [Line (ascii ''QuIt''), Line (ascii ''x'')]\<rparr>)
     = (Inr (), quiet\<lparr>trace := [Input []], stdin := [Line (ascii ''x'')]\<rparr>)
   \<and> trace (snd (interactive_loop plain_python acm0 (quiet\<lparr>stdin := [Line (ascii ''demo'')]\<rparr>)))
     = Input [] # spec_demo @ [Input []]
   \<and> trace (snd (interactive_loop plain_python acm0 (quiet\<lparr>stdin := [Line []]\<rparr>)))
     = [Input [], Input []]
   \<and> trace (snd (interactive_loop plain_python acm0 (quiet\<lparr>stdin := [Line (ascii ''pos 10'')]\<rparr>)))
     = [Input [], SerialWrite (bytes_of ''pos 10'' @ [13, 10]), Sleep 100, Input []]"
proof -
  have o: "is_open acm0" by (simp add: acm0_def)
  have t: "trace quiet = []" by (simp add: quiet_def)
  have n: "ascii ''pos 10'' \<noteq> []" "ascii ''POS 10'' \<noteq> ascii ''QUIT''"
    "ascii ''POS 10'' \<noteq> ascii ''DEMO''" by (simp_all add: ascii_def)
  have 1: "interactive_loop plain_python acm0
             (quiet\<lparr>stdin := [Line (ascii ''QuIt''), Line (ascii ''x'')]\<rparr>)
           = (Inr (), quiet\<lparr>trace := [Input []], stdin := [Line (ascii ''x'')]\<rparr>)"
    using interactive_dispatch [of "quiet\<lparr>stdin := [Line (ascii ''QuIt''), Line (ascii ''x'')]\<rparr>"
        "ascii ''QuIt''" "[Line (ascii ''x'')]" plain_python acm0]
    by (simp add: plain_strip plain_upper o t) (simp add: quiet_def)
  have 2: "trace (snd (interactive_loop plain_python acm0 (quiet\<lparr>stdin := [Line (ascii ''demo'')]\<rparr>)))
           = Input [] # spec_demo @ [Input []]"
    using interactive_dispatch [of "quiet\<lparr>stdin := [Line (ascii ''demo'')]\<rparr>"
        "ascii ''demo''" "[]" plain_python acm0]
    by (simp add: plain_strip plain_upper o t loop_eof emit_def) (simp add: quiet_def)
  have 3: "trace (snd (interactive_loop plain_python acm0 (quiet\<lparr>stdin := [Line []]\<rparr>)))
           = [Input [], Input []]"
    using interactive_dispatch [of "quiet\<lparr>stdin := [Line []]\<rparr>" "[]" "[]" plain_python acm0]
    by (simp add: strip_nil o t loop_eof emit_def) (simp add: quiet_def)
  have 4: "trace (snd (interactive_loop plain_python acm0 (quiet\<lparr>stdin := [Line (ascii ''pos 10'')]\<rparr>)))
           = [Input [], SerialWrite (bytes_of ''pos 10'' @ [13, 10]), Sleep 100, Input []]"
    using interactive_dispatch [of "quiet\<lparr>stdin := [Line (ascii ''pos 10'')]\<rparr>"
        "ascii ''pos 10''" "[]" plain_python acm0 "bytes_of ''pos 10''"]
    by (simp add: plain_strip plain_upper plain_encode n o t loop_eof emit_def) (simp add: quiet_def)
  show ?thesis using 1 2 3 4 by simp
qed

text \<open>
  As stated, claim C3 fails on a line with surrounding whitespace: the line \<^verbatim>\<open>" x"\<close> is
  not empty, and the wire gets \<^verbatim>\<open>"x\r\n"\<close>, not the line followed by CR LF.
\<close>

theorem interactive_raw_line_counterexample:
  "wire (trace (snd (interactive_loop plain_python acm0 (quiet\<lparr>stdin := [Line (ascii '' x'')]\<rparr>))))
     = bytes_of ''x'' @ [13, 10]
   \<and> wire (trace (snd (interactive_loop plain_python acm0 (quiet\<lparr>stdin := [Line (ascii '' x'')]\<rparr>))))
     \<noteq> bytes_of '' x'' @ [13, 10]"
proof -
  let ?w = "quiet\<lparr>stdin := [Line (ascii '' x'')]\<rparr>"
  have s: "stdin ?w = Line (ascii '' x'') # []" by simp
  have n: "strip plain_python (ascii '' x'') \<noteq> []"
    "upper plain_python (strip plain_python (ascii '' x'')) \<noteq> ascii ''QUIT''"
    "upper plain_python (strip plain_python (ascii '' x'')) \<noteq> ascii ''DEMO''"
    by (simp_all add: plain_strip plain_upper) (simp_all add: ascii_def)
  have o: "is_open acm0" by (simp add: acm0_def)
  have q: "sigint_in ?w = None" by (simp add: quiet_def)
  have e: "encode (strip plain_python (ascii '' x'')) = Inr (bytes_of ''x'')"
    by (simp add: plain_strip plain_encode)
  have "trace (snd (interactive_loop plain_python acm0 ?w))
          = [Input [], SerialWrite (bytes_of ''x'' @ [13, 10]), Sleep 100, Input []]"
    by (simp add: loop_send [OF s n o q e] loop_eof) (simp add: quiet_def emit_def)
  then show ?thesis by (simp add: bytes_of_def)
qed


text \<open>
  Claim C10. Every line is stripped of leading and trailing whitespace before dispatch:
  the loop treats a line as it treats the stripped line; a line of whitespace only does
  nothing; a line whose stripped form upper-cases to \<^verbatim>\<open>QUIT\<close> ends the session; any
  other command is sent in its stripped form followed by CR LF.
\<close>

theorem interactive_strips_line:
  assumes "stdin w = Line l # rest"
  shows "interactive_loop P ser w = interactive_loop P ser (w\<lparr>stdin := Line (strip P l) # rest\<rparr>)
       \<and> (list_all (isspace P) l \<longrightarrow>
            interactive_loop P ser w =
              interactive_loop P ser (w\<lparr>trace := trace w @ [Input []], stdin := rest\<rparr>))
       \<and> (upper P (strip P l) = ascii ''QUIT'' \<longrightarrow>
            interactive_loop P ser w = (Inr (), w\<lparr>trace := trace w @ [Input []], stdin := rest\<rparr>))
       \<and> (strip P l \<noteq> [] \<and> upper P (strip P l) \<noteq> ascii ''QUIT''
            \<and> upper P (strip P l) \<noteq> ascii ''DEMO''
            \<and> is_open ser \<and> sigint_in w = None \<and> encode (strip P l) = Inr b \<longrightarrow>
            interactive_loop P ser w =
              interactive_loop P ser
                (w\<lparr>trace := trace w @ [Input [], SerialWrite (b @ [13, 10]), Sleep 100],
                   stdin := rest\<rparr>))"
  using loop_stdin_cong [OF assms strip_idem, of P ser] loop_blank [OF assms, of P ser]
    loop_quit [OF assms, of P ser] loop_send [OF assms, of P ser b]
  by (simp add: strip_nil_iff)


theorem interactive_strips_line_witness:
  "interactive_loop plain_python acm0
     (quiet\<lparr>stdin := [Line (ascii ''  quit  ''), Line (ascii ''x'')]\<rparr>)
     = (Inr (), quiet\<lparr>trace := [Input []], stdin := [Line (ascii ''x'')]\<rparr>)
   \<and> trace (snd (interactive_loop plain_python acm0 (quiet\<lparr>stdin := [Line [32, 9]]\<rparr>)))
     = [Input [], Input []]
   \<and> trace (snd (interactive_loop plain_python acm0
        (quiet\<lparr>stdin := [Line (ascii ''  pos 10 '')]\<rparr>)))
     = [Input [], SerialWrite (bytes_of ''pos 10'' @ [13, 10]), Sleep 100, Input []]"
proof -
  have o: "is_open acm0" by (simp add: acm0_def)
  have t: "trace quiet = []" "sigint_in quiet = None" by (simp_all add: quiet_def)
  have n: "ascii ''pos 10'' \<noteq> []" "ascii ''POS 10'' \<noteq> ascii ''QUIT''"
    "ascii ''POS 10'' \<noteq> ascii ''DEMO''" by (simp_all add: ascii_def)
  have sp: "list_all (isspace plain_python) [32, 9]"
    by (simp add: isspace_def)
  have 1: "interactive_loop plain_python acm0
             (quiet\<lparr>stdin := [Line (ascii ''  quit  ''), Line (ascii ''x'')]\<rparr>)
           = (Inr (), quiet\<lparr>trace := [Input []], stdin := [Line (ascii ''x'')]\<rparr>)"
    using interactive_strips_line [of "quiet\<lparr>stdin := [Line (ascii ''  quit  ''), Line (ascii ''x'')]\<rparr>"
        "ascii ''  quit  ''" "[Line (ascii ''x'')]" plain_python acm0,
        THEN conjunct2, THEN conjunct2, THEN conjunct1]
    by (simp add: plain_strip plain_upper t)
  have 2: "trace (snd (interactive_loop plain_python acm0 (quiet\<lparr>stdin := [Line [32, 9]]\<rparr>)))
           = [Input [], Input []]"
    using interactive_strips_line [of "quiet\<lparr>stdin := [Line [32, 9]]\<rparr>" "[32, 9]" "[]"
        plain_python acm0, THEN conjunct2, THEN conjunct1] sp
    by (simp add: t loop_eof emit_def)
  have 3: "trace (snd (interactive_loop plain_python acm0
             (quiet\<lparr>stdin := [Line (ascii ''  pos 10 '')]\<rparr>)))
           = [Input [], SerialWrite (bytes_of ''pos 10'' @ [13, 10]), Sleep 100, Input []]"
    using interactive_strips_line [of "quiet\<lparr>stdin := [Line (ascii ''  pos 10 '')]\<rparr>"
        "ascii ''  pos 10 ''" "[]" plain_python acm0 "bytes_of ''pos 10''",
        THEN conjunct2, THEN conjunct2, THEN conjunct2]
    by (simp add: plain_strip plain_upper plain_encode n o t loop_eof emit_def)
  show ?thesis using 1 2 3 by simp
qed

subsection \<open>Port Enumerator\<close>

lemma startswith_iff: "startswith s sub \<longleftrightarrow> (\<exists>q. s = sub @ q)"
  by (induction s sub rule: startswith.induct) auto

lemma str_in_iff: "str_in sub s \<longleftrightarrow> (\<exists>p q. s = p @ sub @ q)"
proof (induction s)
  case Nil
  show ?case by auto
next
  case (Cons c cs)
  show ?case
  proof
    assume "str_in sub (c # cs)"
    then consider "startswith (c # cs) sub" | "str_in sub cs" by auto
    then show "\<exists>p q. c # cs = p @ sub @ q"
    proof cases
      case 1
      then obtain q where "c # cs = sub @ q" by (auto simp: startswith_iff)
      then have "c # cs = [] @ sub @ q" by simp
      then show ?thesis by blast
    next
      case 2
      then obtain p q where "cs = p @ sub @ q" using Cons.IH by blast
      then have "c # cs = (c # p) @ sub @ q" by simp
      then show ?thesis by blast
    qed
  next
    assume "\<exists>p q. c # cs = p @ sub @ q"
    then obtain p q where e: "c # cs = p @ sub @ q" by blast
    show "str_in sub (c # cs)"
    proof (cases p)
      case Nil
      then have "startswith (c # cs) sub" using e by (auto simp: startswith_iff)
      then show ?thesis by simp
    next
      case (Cons x p')
      then have "cs = p' @ sub @ q" using e by simp
      then have "str_in sub cs" using Cons.IH by blast
      then show ?thesis by simp
    qed
  qed
qed

lemma none_not_straw: "\<not> str_in (ascii ''Straw Lab'') (ascii ''None'')"
  by (simp add: ascii_def)

lemma is_motor_iff:
  "is_motor p \<longleftrightarrow>
     (\<exists>a b. description p = a @ ascii ''Tilta Motor Control'' @ b)
     \<or> (\<exists>m a b. manufacturer p = Some m \<and> m = a @ ascii ''Straw Lab'' @ b)"
proof (cases "manufacturer p")
  case None
  then show ?thesis using none_not_straw by (simp add: is_motor_def str_opt_def str_in_iff)
next
  case (Some m)
  then show ?thesis by (simp add: is_motor_def str_opt_def str_in_iff)
qed

lemma list_loop_run:
  "list_loop i ps acc w =
     (acc @ filter is_motor ps,
      w\<lparr>trace := trace w @
           map (\<lambda>(k, p). Print (dec k @ ascii '': '' @ device p @ ascii '' - ''
                                @ description p @ nl) False) (enumerate i ps)\<rparr>)"
proof (induction ps arbitrary: i acc w)
  case Nil
  show ?case by simp
next
  case (Cons p ps)
  show ?case by (simp add: Cons.IH Let_def print_def emit_def)
qed

lemma list_devices_run:
  "list_devices w =
     ((comports w, filter is_motor (comports w)),
      w\<lparr>trace := trace w @
           map (\<lambda>(k, p). Print (dec k @ ascii '': '' @ device p @ ascii '' - ''
                                @ description p @ nl) False) (enumerate 0 (comports w))\<rparr>)"
  by (simp add: list_devices_def list_loop_run Let_def)

lemma sample_motors: "is_motor tilta" "is_motor straw" "\<not> is_motor lowercase_port"
  by (simp_all add: is_motor_def tilta_def straw_def lowercase_port_def str_opt_def ascii_def)

text \<open>
  Claim C9. \<open>list_devices\<close> returns the full port list in its order and the candidate
  subset, printing each descriptor with its index; a descriptor is a candidate if and only
  if its description contains \<^verbatim>\<open>Tilta Motor Control\<close> or its manufacturer contains
  \<^verbatim>\<open>Straw Lab\<close>, as a case-sensitive substring (a missing manufacturer reads
  \<^verbatim>\<open>None\<close>, which contains neither).
\<close>

theorem list_devices_classifies:
  "list_devices w =
     ((comports w, filter is_motor (comports w)),
      w\<lparr>trace := trace w @
           map (\<lambda>(k, p). Print (dec k @ ascii '': '' @ device p @ ascii '' - ''
                                @ description p @ nl) False) (enumerate 0 (comports w))\<rparr>)
   \<and> (is_motor p \<longleftrightarrow>
        (\<exists>a b. description p = a @ ascii ''Tilta Motor Control'' @ b)
        \<or> (\<exists>m a b. manufacturer p = Some m \<and> m = a @ ascii ''Straw Lab'' @ b))"
  using list_devices_run is_motor_iff by blast


theorem list_devices_classifies_witness:
  "fst (list_devices (quiet\<lparr>comports := [lowercase_port, tilta, straw]\<rparr>))
     = ([lowercase_port, tilta, straw], [tilta, straw])
   \<and> is_motor tilta \<and> is_motor straw \<and> \<not> is_motor lowercase_port"
  using list_devices_classifies [of "quiet\<lparr>comports := [lowercase_port, tilta, straw]\<rparr>" tilta]
    sample_motors
  by simp

subsection \<open>Connector\<close>

lemma prompts_append: "prompts (a @ b) = prompts a @ prompts b"
  by (simp add: prompts_def)

lemma opens_append: "opens (a @ b) = opens a @ opens b"
  by (simp add: opens_def)

lemma prompts_prints: "prompts (map (\<lambda>(k, p). Print (f k p) False) xs) = []"
  by (induction xs) (auto simp: prompts_def)

lemma opens_prints: "opens (map (\<lambda>(k, p). Print (f k p) False) xs) = []"
  by (induction xs) (auto simp: opens_def)

lemma show_devices_run:
  "show_devices i ds w =
     w\<lparr>trace := trace w @
          map (\<lambda>(k, d). Print (ascii ''  '' @ dec k @ ascii '': '' @ device d @ nl) False)
            (enumerate i ds)\<rparr>"
proof (induction ds arbitrary: i w)
  case Nil
  show ?case by simp
next
  case (Cons d ds)
  show ?case by (simp add: Cons.IH print_def emit_def)
qed

lemma open_port_effect:
  "stdin (snd (open_port n w)) = stdin w"
  "prompts (trace (snd (open_port n w))) = prompts (trace w)"
  "opens (trace (snd (open_port n w))) = opens (trace w) @ [n]"
  "fst (open_port n w) =
     Inr (case port_fault w n of
            None \<Rightarrow> Some \<lparr>port = n, baudrate = 115200, timeout = 1, is_open = True\<rparr>
          | Some e \<Rightarrow> None)"
  by (simp_all add: open_port_def Let_def print_def emit_def prompts_def opens_def
      split: option.splits)

lemma choose_port_single:
  assumes "filter is_motor (comports w) = [d]"
  shows "choose_port P w =
    (Inr (Some (device d)),
     w\<lparr>trace := trace w @
          map (\<lambda>(k, p). Print (dec k @ ascii '': '' @ device p @ ascii '' - ''
                                @ description p @ nl) False) (enumerate 0 (comports w))
          @ [Print (nl @ ascii ''Auto-detected motor controller on '' @ device d @ nl) False]\<rparr>)"
  by (simp add: choose_port_def list_devices_run assms Let_def print_def emit_def)


text \<open>
  Claim C6. When the enumeration finds exactly one candidate, \<open>connect_to_device\<close> without
  a port path announces it and opens that candidate's port: no prompt is issued, standard
  input is not read, and the only open attempt is on the candidate's device.
\<close>

theorem auto_select_single:
  assumes "filter is_motor (comports w) = [d]"
  shows "connect_to_device P None w =
           open_port (device d)
             (w\<lparr>trace := trace w @
                  map (\<lambda>(k, p). Print (dec k @ ascii '': '' @ device p @ ascii '' - ''
                                       @ description p @ nl) False) (enumerate 0 (comports w))
                  @ [Print (nl @ ascii ''Auto-detected motor controller on '' @ device d @ nl)
                       False]\<rparr>)
       \<and> prompts (trace (snd (connect_to_device P None w))) = prompts (trace w)
       \<and> stdin (snd (connect_to_device P None w)) = stdin w
       \<and> opens (trace (snd (connect_to_device P None w))) = opens (trace w) @ [device d]"
proof -
  have c: "connect_to_device P None w =
           open_port (device d)
             (w\<lparr>trace := trace w @
                  map (\<lambda>(k, p). Print (dec k @ ascii '': '' @ device p @ ascii '' - ''
                                       @ description p @ nl) False) (enumerate 0 (comports w))
                  @ [Print (nl @ ascii ''Auto-detected motor controller on '' @ device d @ nl)
                       False]\<rparr>)"
    by (simp add: connect_to_device_def choose_port_single [OF assms])
  show ?thesis
    by (simp add: c open_port_effect prompts_append opens_append prompts_prints opens_prints)
       (simp add: prompts_def opens_def)
qed

theorem auto_select_single_witness:
  "filter is_motor (comports (quiet\<lparr>comports := [lowercase_port, tilta]\<rparr>)) = [tilta]
   \<and> connect_to_device plain_python None (quiet\<lparr>comports := [lowercase_port, tilta]\<rparr>)
       = (Inr (Some acm0),
          quiet\<lparr>trace :=
            [Print (ascii ''0: /dev/ttyUSB0 - tilta motor control'' @ nl) False,
             Print (ascii ''1: /dev/ttyACM0 - Tilta Motor Control'' @ nl) False,
             Print (nl @ ascii ''Auto-detected motor controller on /dev/ttyACM0'' @ nl) False,
             SerialOpen (ascii ''/dev/ttyACM0'') 115200 1,
             Print (ascii ''Connected to /dev/ttyACM0'' @ nl) False],
            comports := [lowercase_port, tilta]\<rparr>)"
proof -
  have f: "filter is_motor (comports (quiet\<lparr>comports := [lowercase_port, tilta]\<rparr>)) = [tilta]"
    by (simp add: sample_motors)
  have c: "connect_to_device plain_python None (quiet\<lparr>comports := [lowercase_port, tilta]\<rparr>)
      = open_port (device tilta)
          ((quiet\<lparr>comports := [lowercase_port, tilta]\<rparr>)
             \<lparr>trace := trace (quiet\<lparr>comports := [lowercase_port, tilta]\<rparr>) @
                map (\<lambda>(k, p). Print (dec k @ ascii '': '' @ device p @ ascii '' - ''
                                     @ description p @ nl) False)
                  (enumerate 0 (comports (quiet\<lparr>comports := [lowercase_port, tilta]\<rparr>)))
                @ [Print (nl @ ascii ''Auto-detected motor controller on '' @ device tilta @ nl)
                     False]\<rparr>)"
    using auto_select_single [OF f, of plain_python] by (rule conjunct1)
  show ?thesis
  proof (intro conjI)
    show "filter is_motor (comports (quiet\<lparr>comports := [lowercase_port, tilta]\<rparr>)) = [tilta]"
      by (rule f)
    show "connect_to_device plain_python None (quiet\<lparr>comports := [lowercase_port, tilta]\<rparr>)
       = (Inr (Some acm0),
          quiet\<lparr>trace :=
            [Print (ascii ''0: /dev/ttyUSB0 - tilta motor control'' @ nl) False,
             Print (ascii ''1: /dev/ttyACM0 - Tilta Motor Control'' @ nl) False,
             Print (nl @ ascii ''Auto-detected motor controller on /dev/ttyACM0'' @ nl) False,
             SerialOpen (ascii ''/dev/ttyACM0'') 115200 1,
             Print (ascii ''Connected to /dev/ttyACM0'' @ nl) False],
            comports := [lowercase_port, tilta]\<rparr>)"
      unfolding c
      by (simp add: open_port_def tilta_def lowercase_port_def acm0_def quiet_def dec.simps
          print_def emit_def Let_def ascii_def nl_def)
  qed
qed

lemma choose_port_ports:
  assumes "filter is_motor (comports w) = []" and "comports w \<noteq> []"
    and "stdin w = Line l # rest"
  shows "\<exists>w4. stdin w4 = rest
           \<and> prompts (trace w4) = prompts (trace w)
                 @ [nl @ ascii ''No motor controller found. Select port number: '']
           \<and> opens (trace w4) = opens (trace w)
           \<and> port_fault w4 = port_fault w
           \<and> choose_port P w =
               (case int_of P l of
                  None \<Rightarrow> (Inr None, print (ascii ''Invalid input!'') w4)
                | Some n \<Rightarrow>
                    if 0 \<le> n \<and> n < int (length (comports w))
                    then (Inr (Some (device (comports w ! nat n))), w4)
                    else (Inr None, print (ascii ''Invalid selection!'') w4))"
proof -
  let ?w1 = "w\<lparr>trace := trace w @
           map (\<lambda>(k, p). Print (dec k @ ascii '': '' @ device p @ ascii '' - ''
                                @ description p @ nl) False) (enumerate 0 (comports w))\<rparr>"
  let ?pr = "nl @ ascii ''No motor controller found. Select port number: ''"
  let ?w4 = "(emit (Input ?pr) ?w1)\<lparr>stdin := rest\<rparr>"
  have s: "stdin ?w1 = Line l # rest" using assms(3) by simp
  have "choose_port P w =
               (case int_of P l of
                  None \<Rightarrow> (Inr None, print (ascii ''Invalid input!'') ?w4)
                | Some n \<Rightarrow>
                    if 0 \<le> n \<and> n < int (length (comports w))
                    then (Inr (Some (device (comports w ! nat n))), ?w4)
                    else (Inr None, print (ascii ''Invalid selection!'') ?w4))"
    using assms(1,2)
    by (simp add: choose_port_def list_devices_run input_line [OF s] split: option.splits)
  moreover have "stdin ?w4 = rest" by simp
  moreover have "prompts (trace ?w4) = prompts (trace w) @ [?pr]"
    by (simp add: emit_def prompts_append prompts_prints) (auto simp: prompts_def split: prod.splits)
  moreover have "opens (trace ?w4) = opens (trace w)"
    by (simp add: emit_def opens_append opens_prints) (auto simp: opens_def split: prod.splits)
  moreover have "port_fault ?w4 = port_fault w" by (simp add: emit_def)
  ultimately show ?thesis by blast
qed

lemma choose_port_devices:
  assumes "2 \<le> length (filter is_motor (comports w))"
    and "stdin w = Line l # rest"
  shows "\<exists>w4. stdin w4 = rest
           \<and> prompts (trace w4) = prompts (trace w) @ [ascii ''Select device number: '']
           \<and> opens (trace w4) = opens (trace w)
           \<and> port_fault w4 = port_fault w
           \<and> choose_port P w =
               (case int_of P l of
                  None \<Rightarrow> (Inr None, print (ascii ''Invalid input!'') w4)
                | Some n \<Rightarrow>
                    if 0 \<le> n \<and> n < int (length (filter is_motor (comports w)))
                    then (Inr (Some (device (filter is_motor (comports w) ! nat n))), w4)
                    else (Inr None, print (ascii ''Invalid selection!'') w4))"
proof -
  let ?ds = "filter is_motor (comports w)"
  let ?w1 = "w\<lparr>trace := trace w @
           map (\<lambda>(k, p). Print (dec k @ ascii '': '' @ device p @ ascii '' - ''
                                @ description p @ nl) False) (enumerate 0 (comports w))\<rparr>"
  let ?w3 = "show_devices 0 ?ds
               (print (nl @ ascii ''Found '' @ dec (length ?ds) @ ascii '' motor controllers:'') ?w1)"
  let ?pr = "ascii ''Select device number: ''"
  let ?w4 = "(emit (Input ?pr) ?w3)\<lparr>stdin := rest\<rparr>"
  have s: "stdin ?w3 = Line l # rest"
    using assms(2) by (simp add: show_devices_run print_def emit_def)
  have ne: "?ds \<noteq> []" "length ?ds \<noteq> Suc 0" using assms(1) by auto
  have "choose_port P w =
               (case int_of P l of
                  None \<Rightarrow> (Inr None, print (ascii ''Invalid input!'') ?w4)
                | Some n \<Rightarrow>
                    if 0 \<le> n \<and> n < int (length ?ds)
                    then (Inr (Some (device (?ds ! nat n))), ?w4)
                    else (Inr None, print (ascii ''Invalid selection!'') ?w4))"
    using ne
    by (simp add: choose_port_def list_devices_run Let_def input_line [OF s] split: option.splits)
  moreover have "stdin ?w4 = rest" by simp
  moreover have "prompts (trace ?w4) = prompts (trace w) @ [?pr]"
    by (simp add: show_devices_run print_def emit_def prompts_append prompts_prints)
       (auto simp: prompts_def split: prod.splits)
  moreover have "opens (trace ?w4) = opens (trace w)"
    by (simp add: show_devices_run print_def emit_def opens_append opens_prints)
       (auto simp: opens_def split: prod.splits)
  moreover have "port_fault ?w4 = port_fault w"
    by (simp add: show_devices_run print_def emit_def)
  ultimately show ?thesis by blast
qed


lemma connect_after_choice:
  assumes "choose_port P w =
             (case int_of P l of
                None \<Rightarrow> (Inr None, print (ascii ''Invalid input!'') w4)
              | Some n \<Rightarrow>
                  if 0 \<le> n \<and> n < int (length xs)
                  then (Inr (Some (device (xs ! nat n))), w4)
                  else (Inr None, print (ascii ''Invalid selection!'') w4))"
  shows "connect_to_device P None w =
             (case int_of P l of
                None \<Rightarrow> (Inr None, print (ascii ''Invalid input!'') w4)
              | Some n \<Rightarrow>
                  if 0 \<le> n \<and> n < int (length xs)
                  then open_port (device (xs ! nat n)) w4
                  else (Inr None, print (ascii ''Invalid selection!'') w4))"
  by (simp add: connect_to_device_def assms split: option.splits)

lemma print_effect:
  "stdin (print t w) = stdin w"
  "prompts (trace (print t w)) = prompts (trace w)"
  "opens (trace (print t w)) = opens (trace w)"
  "last (trace (print t w)) = Print (t @ nl) False"
  by (simp_all add: print_def emit_def prompts_def opens_def)

lemma plain_int_samples:
  "int_of plain_python (ascii ''5'') = Some 5"
  "int_of plain_python (ascii ''1'') = Some 1"
  "int_of plain_python (ascii ''0'') = Some 0"
  "int_of plain_python (ascii ''abc'') = None"
  by (simp_all add: plain_python_def plain_int_def ascii_def)

text \<open>
  Claim C7. When the connector prompts (over the candidates if there are several, over
  the full port list if there is none) and the answer is not a number or is a number
  outside \<open>[0, count)\<close> of the offered list, the connector prints an error and returns no
  connection: nothing is opened, and exactly one line has been asked for and read.
\<close>

theorem invalid_selection_fails:
  assumes "stdin w = Line l # rest"
    and "comports w \<noteq> []" and "length (filter is_motor (comports w)) \<noteq> 1"
    and "offered = (if filter is_motor (comports w) = [] then comports w
                    else filter is_motor (comports w))"
    and "case int_of P l of None \<Rightarrow> True | Some n \<Rightarrow> n < 0 \<or> int (length offered) \<le> n"
  shows "fst (connect_to_device P None w) = Inr None
       \<and> opens (trace (snd (connect_to_device P None w))) = opens (trace w)
       \<and> stdin (snd (connect_to_device P None w)) = rest
       \<and> length (prompts (trace (snd (connect_to_device P None w))))
           = length (prompts (trace w)) + 1
       \<and> last (trace (snd (connect_to_device P None w)))
           = Print ((if int_of P l = None then ascii ''Invalid input!''
                     else ascii ''Invalid selection!'') @ nl) False"
proof -
  have "\<exists>w4 pr. stdin w4 = rest \<and> prompts (trace w4) = prompts (trace w) @ [pr]
          \<and> opens (trace w4) = opens (trace w)
          \<and> choose_port P w =
               (case int_of P l of
                  None \<Rightarrow> (Inr None, print (ascii ''Invalid input!'') w4)
                | Some n \<Rightarrow>
                    if 0 \<le> n \<and> n < int (length offered)
                    then (Inr (Some (device (offered ! nat n))), w4)
                    else (Inr None, print (ascii ''Invalid selection!'') w4))"
  proof (cases "filter is_motor (comports w) = []")
    case True
    then have o: "offered = comports w" using assms(4) by simp
    from choose_port_ports [OF True assms(2) assms(1), of P] show ?thesis
      unfolding o by blast
  next
    case False
    then have o: "offered = filter is_motor (comports w)" using assms(4) by simp
    have "2 \<le> length (filter is_motor (comports w))"
    proof -
      have "length (filter is_motor (comports w)) \<noteq> 0" using False by simp
      with assms(3) show ?thesis by arith
    qed
    from choose_port_devices [OF this assms(1), of P] show ?thesis
      unfolding o by blast
  qed
  then obtain w4 pr where w4: "stdin w4 = rest" "prompts (trace w4) = prompts (trace w) @ [pr]"
      "opens (trace w4) = opens (trace w)"
    and ch: "choose_port P w =
               (case int_of P l of
                  None \<Rightarrow> (Inr None, print (ascii ''Invalid input!'') w4)
                | Some n \<Rightarrow>
                    if 0 \<le> n \<and> n < int (length offered)
                    then (Inr (Some (device (offered ! nat n))), w4)
                    else (Inr None, print (ascii ''Invalid selection!'') w4))"
    by blast
  show ?thesis
  proof (cases "int_of P l")
    case None
    then show ?thesis
      by (simp add: connect_after_choice [OF ch] print_effect w4)
  next
    case (Some n)
    then have nv: "(0 \<le> n \<and> n < int (length offered)) = False" using assms(5) by auto
    show ?thesis
      by (simp add: connect_after_choice [OF ch] Some nv print_effect w4)
  qed
qed

theorem invalid_selection_fails_witness:
  "fst (connect_to_device plain_python None
         (quiet\<lparr>comports := [tilta, straw], stdin := [Line (ascii ''5'')]\<rparr>)) = Inr None
   \<and> opens (trace (snd (connect_to_device plain_python None
         (quiet\<lparr>comports := [tilta, straw], stdin := [Line (ascii ''5'')]\<rparr>)))) = []
   \<and> last (trace (snd (connect_to_device plain_python None
         (quiet\<lparr>comports := [tilta, straw], stdin := [Line (ascii ''5'')]\<rparr>))))
       = Print (ascii ''Invalid selection!'' @ nl) False
   \<and> fst (connect_to_device plain_python None
         (quiet\<lparr>comports := [lowercase_port], stdin := [Line (ascii ''abc'')]\<rparr>)) = Inr None
   \<and> opens (trace (snd (connect_to_device plain_python None
         (quiet\<lparr>comports := [lowercase_port], stdin := [Line (ascii ''abc'')]\<rparr>)))) = []
   \<and> last (trace (snd (connect_to_device plain_python None
         (quiet\<lparr>comports := [lowercase_port], stdin := [Line (ascii ''abc'')]\<rparr>))))
       = Print (ascii ''Invalid input!'' @ nl) False"
proof -
  let ?w = "quiet\<lparr>comports := [tilta, straw], stdin := [Line (ascii ''5'')]\<rparr>"
  let ?v = "quiet\<lparr>comports := [lowercase_port], stdin := [Line (ascii ''abc'')]\<rparr>"
  have t: "opens (trace quiet) = []" by (simp add: quiet_def opens_def)
  have 1: "stdin ?w = Line (ascii ''5'') # []" by simp
  have 2: "comports ?w \<noteq> []" by simp
  have 3: "length (filter is_motor (comports ?w)) \<noteq> 1" by (simp add: sample_motors)
  have 4: "[tilta, straw] = (if filter is_motor (comports ?w) = [] then comports ?w
                    else filter is_motor (comports ?w))" by (simp add: sample_motors)
  have 5: "case int_of plain_python (ascii ''5'') of None \<Rightarrow> True
           | Some n \<Rightarrow> n < 0 \<or> int (length [tilta, straw]) \<le> n"
    by (simp add: plain_int_samples)
  have a: "stdin ?v = Line (ascii ''abc'') # []" by simp
  have b: "comports ?v \<noteq> []" by simp
  have c: "length (filter is_motor (comports ?v)) \<noteq> 1" by (simp add: sample_motors)
  have d: "[lowercase_port] = (if filter is_motor (comports ?v) = [] then comports ?v
                    else filter is_motor (comports ?v))" by (simp add: sample_motors)
  have e: "case int_of plain_python (ascii ''abc'') of None \<Rightarrow> True
           | Some n \<Rightarrow> n < 0 \<or> int (length [lowercase_port]) \<le> n"
    by (simp add: plain_int_samples)
  show ?thesis
    using invalid_selection_fails [OF 1 2 3 4 5] invalid_selection_fails [OF a b c d e]
    by (simp add: t plain_int_samples)
qed

text \<open>
  Claim C8. With no port at all the connector fails at once with
  \<^verbatim>\<open>No serial ports found!\<close>. With no candidate but at least one port it prompts over the
  full port list, with the same rule: an index inside the list opens that port, anything
  else opens nothing and returns no connection.
\<close>

theorem no_candidate_selection:
  "(comports w = [] \<longrightarrow>
      connect_to_device P None w =
        (Inr None, w\<lparr>trace := trace w @ [Print (ascii ''No serial ports found!'' @ nl) False]\<rparr>))
   \<and> (filter is_motor (comports w) = [] \<and> comports w \<noteq> [] \<and> stdin w = Line l # rest \<longrightarrow>
        prompts (trace (snd (connect_to_device P None w)))
          = prompts (trace w) @ [nl @ ascii ''No motor controller found. Select port number: '']
        \<and> (case int_of P l of
             None \<Rightarrow>
               fst (connect_to_device P None w) = Inr None
               \<and> opens (trace (snd (connect_to_device P None w))) = opens (trace w)
           | Some n \<Rightarrow>
               if 0 \<le> n \<and> n < int (length (comports w))
               then opens (trace (snd (connect_to_device P None w)))
                      = opens (trace w) @ [device (comports w ! nat n)]
               else fst (connect_to_device P None w) = Inr None
                    \<and> opens (trace (snd (connect_to_device P None w))) = opens (trace w)))"
proof (intro conjI impI)
  assume "comports w = []"
  then show "connect_to_device P None w =
        (Inr None, w\<lparr>trace := trace w @ [Print (ascii ''No serial ports found!'' @ nl) False]\<rparr>)"
    by (simp add: connect_to_device_def choose_port_def list_devices_run print_def emit_def)
next
  assume a: "filter is_motor (comports w) = [] \<and> comports w \<noteq> [] \<and> stdin w = Line l # rest"
  from a choose_port_ports [of w l rest P]
  obtain w4 where w4: "stdin w4 = rest"
      "prompts (trace w4) = prompts (trace w)
         @ [nl @ ascii ''No motor controller found. Select port number: '']"
      "opens (trace w4) = opens (trace w)"
    and ch: "choose_port P w =
               (case int_of P l of
                  None \<Rightarrow> (Inr None, print (ascii ''Invalid input!'') w4)
                | Some n \<Rightarrow>
                    if 0 \<le> n \<and> n < int (length (comports w))
                    then (Inr (Some (device (comports w ! nat n))), w4)
                    else (Inr None, print (ascii ''Invalid selection!'') w4))"
    by blast
  show "prompts (trace (snd (connect_to_device P None w)))
          = prompts (trace w) @ [nl @ ascii ''No motor controller found. Select port number: '']"
    by (simp add: connect_after_choice [OF ch] print_effect open_port_effect w4
        split: option.splits)
  show "case int_of P l of
             None \<Rightarrow>
               fst (connect_to_device P None w) = Inr None
               \<and> opens (trace (snd (connect_to_device P None w))) = opens (trace w)
           | Some n \<Rightarrow>
               if 0 \<le> n \<and> n < int (length (comports w))
               then opens (trace (snd (connect_to_device P None w)))
                      = opens (trace w) @ [device (comports w ! nat n)]
               else fst (connect_to_device P None w) = Inr None
                    \<and> opens (trace (snd (connect_to_device P None w))) = opens (trace w)"
    by (simp add: connect_after_choice [OF ch] print_effect open_port_effect w4
        split: option.splits)
qed


theorem no_candidate_selection_witness:
  "connect_to_device plain_python None quiet
     = (Inr None, quiet\<lparr>trace := [Print (ascii ''No serial ports found!'' @ nl) False]\<rparr>)
   \<and> prompts (trace (snd (connect_to_device plain_python None
         (quiet\<lparr>comports := [lowercase_port, lowercase_port], stdin := [Line (ascii ''1'')]\<rparr>))))
       = [nl @ ascii ''No motor controller found. Select port number: '']
   \<and> opens (trace (snd (connect_to_device plain_python None
         (quiet\<lparr>comports := [lowercase_port, lowercase_port], stdin := [Line (ascii ''1'')]\<rparr>))))
       = [ascii ''/dev/ttyUSB0'']"
proof -
  let ?w = "quiet\<lparr>comports := [lowercase_port, lowercase_port], stdin := [Line (ascii ''1'')]\<rparr>"
  have q: "comports quiet = []" "trace quiet = []" by (simp_all add: quiet_def)
  have 1: "connect_to_device plain_python None quiet
     = (Inr None, quiet\<lparr>trace := [Print (ascii ''No serial ports found!'' @ nl) False]\<rparr>)"
    using no_candidate_selection [of quiet plain_python, THEN conjunct1] by (simp add: q)
  have h: "filter is_motor (comports ?w) = [] \<and> comports ?w \<noteq> []
           \<and> stdin ?w = Line (ascii ''1'') # []"
    by (simp add: sample_motors)
  have t: "prompts (trace quiet) = []" "opens (trace quiet) = []"
    by (simp_all add: quiet_def prompts_def opens_def)
  have 2: "prompts (trace (snd (connect_to_device plain_python None ?w)))
       = [nl @ ascii ''No motor controller found. Select port number: '']
     \<and> opens (trace (snd (connect_to_device plain_python None ?w))) = [ascii ''/dev/ttyUSB0'']"
    using no_candidate_selection [of ?w plain_python "ascii ''1''" "[]", THEN conjunct2] h
    by (simp add: t plain_int_samples lowercase_port_def)
  show ?thesis using 1 2 by simp
qed

subsection \<open>Entry point\<close>

lemma lower_demo: "lower plain_python (ascii ''demo'') = ascii ''demo''"
  "lower plain_python (ascii ''DEMO'') = ascii ''demo''"
  by (simp_all add: lower_def ascii_def)

lemma connect_tilta:
  assumes "comports w = [tilta]" and "port_fault w = (\<lambda>p. None)"
  shows "\<exists>w'. connect_to_device P None w = (Inr (Some acm0), w')
           \<and> sigint_in w' = sigint_in w \<and> stdin w' = stdin w \<and> rx w' = rx w
           \<and> closes (trace w') = closes (trace w)
           \<and> opens (trace w') = opens (trace w) @ [ascii ''/dev/ttyACM0'']"
proof -
  have f: "filter is_motor (comports w) = [tilta]" by (simp add: assms(1) sample_motors)
  show ?thesis
    by (simp add: connect_to_device_def choose_port_single [OF f] open_port_def assms Let_def
        print_def emit_def acm0_def tilta_def closes_def opens_def)
qed

lemma encode_pos0: "encode (ascii ''POS '' @ str_int 0) = Inr (bytes_of ''POS 0'')"
  by (simp add: str_int_def dec.simps ascii_def bytes_of_def utf8_char_def)

lemma demo_mode_interrupted:
  assumes "is_open ser" and "sigint_in w = Some t" and "100 \<le> t" and "t < 2100"
  shows "demo_mode ser w =
     (Inl KeyboardInterrupt,
      w\<lparr>trace := trace w @
           [Print (nl @ ascii ''=== DEMO MODE ==='' @ nl) False,
            Print (ascii ''Running motor demo sequence...'' @ nl) False,
            Print (nl @ ascii ''Minimum position'' @ ascii ''...'' @ nl) False,
            SerialWrite (bytes_of ''POS 0'' @ [13, 10]), Sleep 100, Sleep 2000],
         sigint_in := None\<rparr>)"
proof -
  let ?w3 = "print (nl @ ascii ''Minimum position'' @ ascii ''...'')
               (print (ascii ''Running motor demo sequence...'')
                 (print (nl @ ascii ''=== DEMO MODE ==='') w))"
  let ?w4 = "emit (SerialWrite (bytes_of ''POS 0'' @ [13, 10])) ?w3"
  have s4: "sigint_in ?w4 = Some t" using assms(2) by (simp add: print_def emit_def)
  have sl1: "sleep 100 ?w4 = (Inr (), (emit (Sleep 100) ?w4)\<lparr>sigint_in := Some (t - 100)\<rparr>)"
    using assms(3) by (simp add: sleep_def s4 Let_def)
  let ?w5 = "(emit (Sleep 100) ?w4)\<lparr>sigint_in := Some (t - 100)\<rparr>"
  have sl2: "sleep 2000 ?w5 = (Inl KeyboardInterrupt, (emit (Sleep 2000) ?w5)\<lparr>sigint_in := None\<rparr>)"
    using assms(3,4) by (simp add: sleep_def Let_def emit_def)
  have sc: "send_command ser (ascii ''POS '' @ str_int 0) ?w3 = (Inr (), ?w5)"
    by (simp add: send_command_run [OF assms(1) encode_pos0] sl1)
  show ?thesis
    by (simp add: demo_mode_def positions_def Let_def sc sl2 del: append_assoc)
       (simp add: print_def emit_def)
qed

text \<open>
  Where the session ends by an interrupt at the prompt of the Interactive Session, the
  handler of the loop lets \<open>main\<close> go on to \<^verbatim>\<open>ser.close()\<close>: the connection is closed once.
\<close>

lemma main_interactive_interrupt_closes:
  "fst (main plain_python [ascii ''server.py''] (quiet\<lparr>comports := [tilta], stdin := [CtrlC]\<rparr>))
     = Inr ()
   \<and> closes (trace (snd (main plain_python [ascii ''server.py'']
          (quiet\<lparr>comports := [tilta], stdin := [CtrlC]\<rparr>)))) = 1"
proof -
  let ?w = "quiet\<lparr>comports := [tilta], stdin := [CtrlC]\<rparr>"
  let ?w2 = "print (ascii ''==================================='')
               (print (ascii ''Tilta Nucleus Nano 2 Motor Control'') ?w)"
  have a: "comports ?w2 = [tilta]" "port_fault ?w2 = (\<lambda>p. None)"
    by (simp_all add: print_def emit_def quiet_def)
  from connect_tilta [OF a, of plain_python]
  obtain w3 where c: "connect_to_device plain_python None ?w2 = (Inr (Some acm0), w3)"
    and w3: "sigint_in w3 = sigint_in ?w2" "rx w3 = rx ?w2" "stdin w3 = stdin ?w2"
      "closes (trace w3) = closes (trace ?w2)"
    by blast
  have s3: "sigint_in w3 = None" "rx w3 = []" "closes (trace w3) = 0" "stdin w3 = [CtrlC]"
    using w3 by (simp_all add: print_def emit_def quiet_def closes_def)
  let ?w5 = "emit ThreadStart (fold print banner (emit (Sleep 1000) w3))"
  have st: "stdin ?w5 = CtrlC # []" "closes (trace ?w5) = 0" "rx (emit (Sleep 1000) w3) = []"
    using s3 by (simp_all add: banner_def print_def emit_def closes_def)
  have o: "is_open acm0" by (simp add: acm0_def)
  show ?thesis
    using st(2)
    by (simp add: st(3) main_def Let_def c sleep_quiet s3 interactive_mode_def
          loop_ctrlc [OF st(1)] ser_close_def o)
       (simp add: print_def emit_def closes_def)
qed

text \<open>
  Claim C5 requires the connection to be closed exactly once at session end, also when an
  interrupt ends the session in the command-line demo mode. There \<open>main\<close> calls
  \<open>demo_mode\<close> outside any handler: with one Tilta port, the argument \<^verbatim>\<open>demo\<close> and an
  interrupt 1.5 seconds after the connection is opened, \<^verbatim>\<open>KeyboardInterrupt\<close> leaves
  \<open>main\<close> and the connection that was opened is never closed.
\<close>

theorem main_demo_interrupt_no_close:
  "fst (main plain_python [ascii ''server.py'', ascii ''demo'']
          (quiet\<lparr>comports := [tilta], sigint_in := Some 1500\<rparr>)) = Inl KeyboardInterrupt
   \<and> opens (trace (snd (main plain_python [ascii ''server.py'', ascii ''demo'']
          (quiet\<lparr>comports := [tilta], sigint_in := Some 1500\<rparr>)))) = [ascii ''/dev/ttyACM0'']
   \<and> closes (trace (snd (main plain_python [ascii ''server.py'', ascii ''demo'']
          (quiet\<lparr>comports := [tilta], sigint_in := Some 1500\<rparr>)))) = 0"
proof -
  let ?w = "quiet\<lparr>comports := [tilta], sigint_in := Some 1500\<rparr>"
  let ?w2 = "print (ascii ''==================================='')
               (print (ascii ''Tilta Nucleus Nano 2 Motor Control'') ?w)"
  have a: "comports ?w2 = [tilta]" "port_fault ?w2 = (\<lambda>p. None)"
    by (simp_all add: print_def emit_def quiet_def)
  from connect_tilta [OF a, of plain_python]
  obtain w3 where c: "connect_to_device plain_python None ?w2 = (Inr (Some acm0), w3)"
    and w3: "sigint_in w3 = sigint_in ?w2" "rx w3 = rx ?w2"
      "closes (trace w3) = closes (trace ?w2)"
      "opens (trace w3) = opens (trace ?w2) @ [ascii ''/dev/ttyACM0'']"
    by blast
  have s3: "sigint_in w3 = Some 1500" "rx w3 = []" "closes (trace w3) = 0"
    "opens (trace w3) = [ascii ''/dev/ttyACM0'']"
    using w3 by (simp_all add: print_def emit_def quiet_def closes_def opens_def)
  let ?w4 = "(emit (Sleep 1000) w3)\<lparr>sigint_in := Some 500\<rparr>"
  have sl: "sleep 1000 w3 = (Inr (), ?w4)" by (simp add: sleep_def s3 Let_def)
  have o: "is_open acm0" by (simp add: acm0_def)
  have q: "sigint_in ?w4 = Some 500" "rx ?w4 = []" using s3 by (simp_all add: emit_def)
  note d = demo_mode_interrupted [OF o q(1)]
  have m: "fst (main plain_python [ascii ''server.py'', ascii ''demo''] ?w) = Inl KeyboardInterrupt"
    by (simp add: main_def Let_def c sl q lower_demo d)
  have t: "trace (snd (main plain_python [ascii ''server.py'', ascii ''demo''] ?w))
      = trace w3 @ [Sleep 1000, Print (nl @ ascii ''=== DEMO MODE ==='' @ nl) False,
            Print (ascii ''Running motor demo sequence...'' @ nl) False,
            Print (nl @ ascii ''Minimum position'' @ ascii ''...'' @ nl) False,
            SerialWrite (bytes_of ''POS 0'' @ [13, 10]), Sleep 100, Sleep 2000]"
    by (simp add: main_def Let_def c sl q lower_demo d) (simp add: emit_def)
  show ?thesis using s3 by (simp add: m t closes_def opens_def)
qed

subsection \<open>Reader Loop\<close>

text \<open>The decoder reads back what the encoder writes.\<close>

lemma lead2_mod: "(q::nat) < 32 \<Longrightarrow> (0xC0 + q) mod 32 = q"
  using mod_mult_self3 [of 6 32 q] by simp

lemma lead3_mod: "(q::nat) < 16 \<Longrightarrow> (0xE0 + q) mod 16 = q"
  using mod_mult_self3 [of 14 16 q] by simp

lemma lead4_mod: "(q::nat) < 8 \<Longrightarrow> (0xF0 + q) mod 8 = q"
  using mod_mult_self3 [of 30 8 q] by simp

lemma tail_mod: "(q::nat) < 64 \<Longrightarrow> (0x80 + q) mod 64 = q"
  using mod_mult_self3 [of 2 64 q] by simp

lemma cp_split2:
  fixes c :: nat
  obtains x z where "c = x * 64 + z" "z < 64" "c div 64 = x" "c mod 64 = z"
proof -
  have "c = c div 64 * 64 + c mod 64" by simp
  moreover have "c mod 64 < 64" by simp
  ultimately show ?thesis using that by blast
qed

lemma cp_split3:
  fixes c :: nat
  obtains x y z where "c = x * 4096 + y * 64 + z" "y < 64" "z < 64"
    "c div 4096 = x" "c div 64 mod 64 = y" "c mod 64 = z"
proof -
  define d where "d = c div 64"
  define x where "x = d div 64"
  define y where "y = d mod 64"
  define z where "z = c mod 64"
  have 1: "c = d * 64 + z" unfolding d_def z_def by simp
  have 2: "d = x * 64 + y" unfolding x_def y_def by simp
  have 3: "c div 4096 = x" unfolding x_def d_def by (simp add: div_mult2_eq)
  have 4: "c = x * 4096 + y * 64 + z" using 1 2 by linarith
  have 5: "y < 64" "z < 64" unfolding y_def z_def by simp_all
  have 6: "c div 64 mod 64 = y" "c mod 64 = z" unfolding y_def d_def z_def by simp_all
  show ?thesis using that [OF 4 5 3 6] .
qed

lemma cp_split4:
  fixes c :: nat
  obtains x y2 y z where "c = x * 262144 + y2 * 4096 + y * 64 + z" "y2 < 64" "y < 64" "z < 64"
    "c div 262144 = x" "c div 4096 mod 64 = y2" "c div 64 mod 64 = y" "c mod 64 = z"
proof -
  obtain u y z where u: "c = u * 4096 + y * 64 + z" "y < 64" "z < 64"
    "c div 4096 = u" "c div 64 mod 64 = y" "c mod 64 = z" by (rule cp_split3)
  define x where "x = u div 64"
  define y2 where "y2 = u mod 64"
  have 2: "u = x * 64 + y2" unfolding x_def y2_def by simp
  have 3: "c div 262144 = x" unfolding x_def u(4) [symmetric] by (simp add: div_mult2_eq)
  have 4: "c = x * 262144 + y2 * 4096 + y * 64 + z" using u(1) 2 by linarith
  have 5: "y2 < 64" unfolding y2_def by simp
  have 6: "c div 4096 mod 64 = y2" unfolding y2_def u(4) ..
  show ?thesis using that [OF 4 5 u(2) u(3) 3 6 u(5) u(6)] .
qed

lemma byte_unat: "n < 256 \<Longrightarrow> unat (of_nat n :: byte) = n"
  by (simp add: unat_of_nat)

lemma scan1: "unat b < 0x80 \<Longrightarrow> utf8_scan (b # r) = Cp (unat b) # utf8_scan r"
  by (simp add: Let_def)

lemma scan2:
  assumes "0xC2 \<le> unat b1" and "unat b1 < 0xE0" and "is_cont b2"
  shows "utf8_scan (b1 # b2 # r) = Cp (unat b1 mod 32 * 64 + unat b2 mod 64) # utf8_scan r"
  using assms by (simp add: Let_def)

lemma scan3:
  assumes "0xE0 \<le> unat b1" and "unat b1 < 0xF0" and "second_ok (unat b1) b2" and "is_cont b3"
  shows "utf8_scan (b1 # b2 # b3 # r)
           = Cp (unat b1 mod 16 * 4096 + unat b2 mod 64 * 64 + unat b3 mod 64) # utf8_scan r"
  using assms by (simp add: Let_def)

lemma scan4:
  assumes "0xF0 \<le> unat b1" and "unat b1 < 0xF5" and "second_ok (unat b1) b2"
    and "is_cont b3" and "is_cont b4"
  shows "utf8_scan (b1 # b2 # b3 # b4 # r)
           = Cp (unat b1 mod 8 * 262144 + unat b2 mod 64 * 4096 + unat b3 mod 64 * 64
                 + unat b4 mod 64) # utf8_scan r"
  using assms by (simp add: Let_def)

lemma cont_unat: "m < 64 \<Longrightarrow> unat (of_nat (0x80 + m) :: byte) = 0x80 + m"
  by (rule byte_unat) simp

lemma cont_byte:
  assumes "m < 64"
  shows "is_cont (of_nat (0x80 + m))"
  unfolding is_cont_def cont_unat [OF assms] using assms by simp

lemma cont_val:
  assumes "m < 64"
  shows "unat (of_nat (0x80 + m) :: byte) mod 64 = m"
  unfolding cont_unat [OF assms] by (rule tail_mod [OF assms])

lemma char2:
  assumes "0x80 \<le> c" "c < 0x800"
  shows "utf8_scan (of_nat (0xC0 + c div 64) # of_nat (0x80 + c mod 64) # r) = Cp c # utf8_scan r"
proof -
  obtain x z where s: "c = x * 64 + z" "z < 64" "c div 64 = x" "c mod 64 = z" by (rule cp_split2)
  have k: "x < 32" "2 \<le> x" using assms s(1,2) by linarith+
  have u1: "unat (of_nat (0xC0 + x) :: byte) = 0xC0 + x"
    using k by (intro byte_unat) simp
  have r1: "0xC2 \<le> unat (of_nat (0xC0 + x) :: byte)" "unat (of_nat (0xC0 + x) :: byte) < 0xE0"
    unfolding u1 using k by simp_all
  have v: "(0xC0 + x) mod 32 * 64 + z = c" unfolding lead2_mod [OF k(1)] using s(1) by simp
  show ?thesis
    unfolding s(3,4) scan2 [OF r1 cont_byte [OF s(2)]] u1 cont_val [OF s(2)] v ..
qed


lemma char3:
  assumes "0x800 \<le> c" "c < 0x10000" "\<not> (0xD800 \<le> c \<and> c < 0xE000)"
  shows "utf8_scan (of_nat (0xE0 + c div 4096) # of_nat (0x80 + c div 64 mod 64)
                    # of_nat (0x80 + c mod 64) # r) = Cp c # utf8_scan r"
proof -
  obtain x y z where s: "c = x * 4096 + y * 64 + z" "y < 64" "z < 64"
    "c div 4096 = x" "c div 64 mod 64 = y" "c mod 64 = z" by (rule cp_split3)
  have k: "x < 16" using assms s(1) by linarith
  have u1: "unat (of_nat (0xE0 + x) :: byte) = 0xE0 + x"
    using k by (intro byte_unat) simp
  have r1: "0xE0 \<le> unat (of_nat (0xE0 + x) :: byte)" "unat (of_nat (0xE0 + x) :: byte) < 0xF0"
    unfolding u1 using k by simp_all
  have y0: "x = 0 \<Longrightarrow> 32 \<le> y" using assms(1) s(1,3) by linarith
  have y13: "x = 13 \<Longrightarrow> y < 32" using assms(3) s(1,2,3) by linarith
  have so: "second_ok (unat (of_nat (0xE0 + x) :: byte)) (of_nat (0x80 + y))"
    unfolding u1 second_ok_def cont_unat [OF s(2)]
    using cont_byte [OF s(2)] y0 y13 k by simp
  have v: "(0xE0 + x) mod 16 * 4096 + y * 64 + z = c" unfolding lead3_mod [OF k] using s(1) by simp
  show ?thesis
    unfolding s(4,5,6) scan3 [OF r1 so cont_byte [OF s(3)]] u1 cont_val [OF s(2)]
      cont_val [OF s(3)] v ..
qed

lemma char4:
  assumes "0x10000 \<le> c" "c < 0x110000"
  shows "utf8_scan (of_nat (0xF0 + c div 262144) # of_nat (0x80 + c div 4096 mod 64)
                    # of_nat (0x80 + c div 64 mod 64) # of_nat (0x80 + c mod 64) # r)
           = Cp c # utf8_scan r"
proof -
  obtain x y2 y z where s: "c = x * 262144 + y2 * 4096 + y * 64 + z" "y2 < 64" "y < 64" "z < 64"
    "c div 262144 = x" "c div 4096 mod 64 = y2" "c div 64 mod 64 = y" "c mod 64 = z"
    by (rule cp_split4)
  have k: "x < 5" using assms s(1) by linarith
  have k8: "x < 8" using k by simp
  have u1: "unat (of_nat (0xF0 + x) :: byte) = 0xF0 + x"
    using k by (intro byte_unat) simp
  have r1: "0xF0 \<le> unat (of_nat (0xF0 + x) :: byte)" "unat (of_nat (0xF0 + x) :: byte) < 0xF5"
    unfolding u1 using k by simp_all
  have y0: "x = 0 \<Longrightarrow> 16 \<le> y2" using assms(1) s(1,3,4) by linarith
  have y4: "x = 4 \<Longrightarrow> y2 < 16" using assms(2) s(1) by linarith
  have so: "second_ok (unat (of_nat (0xF0 + x) :: byte)) (of_nat (0x80 + y2))"
    unfolding u1 second_ok_def cont_unat [OF s(2)]
    using cont_byte [OF s(2)] y0 y4 k by simp
  have v: "(0xF0 + x) mod 8 * 262144 + y2 * 4096 + y * 64 + z = c"
    unfolding lead4_mod [OF k8] using s(1) by simp
  show ?thesis
    unfolding s(5,6,7,8) scan4 [OF r1 so cont_byte [OF s(3)] cont_byte [OF s(4)]] u1
      cont_val [OF s(2)] cont_val [OF s(3)] cont_val [OF s(4)] v ..
qed

lemma char1:
  assumes "c < 0x80"
  shows "utf8_scan (of_nat c # r) = Cp c # utf8_scan r"
proof -
  have u: "unat (of_nat c :: byte) = c" using assms by (intro byte_unat) simp
  have "unat (of_nat c :: byte) < 0x80" unfolding u using assms .
  from scan1 [OF this] show ?thesis unfolding u .
qed

lemma scan_char:
  assumes "utf8_char c = Inr b"
  shows "utf8_scan (b @ r) = Cp c # utf8_scan r"
proof -
  consider (one) "c < 0x80"
    | (two) "0x80 \<le> c" "c < 0x800"
    | (three) "0x800 \<le> c" "c < 0x10000" "\<not> (0xD800 \<le> c \<and> c < 0xE000)"
    | (four) "0x10000 \<le> c" "c < 0x110000"
    using assms by (auto simp: utf8_char_def split: if_splits)
  then show ?thesis
  proof cases
    case one
    then have b: "b = [of_nat c]" using assms by (simp add: utf8_char_def)
    show ?thesis unfolding b using char1 [OF one] by simp
  next
    case two
    then have b: "b = [of_nat (0xC0 + c div 64), of_nat (0x80 + c mod 64)]"
      using assms by (simp add: utf8_char_def del: of_nat_add)
    show ?thesis unfolding b using char2 [OF two] by simp
  next
    case three
    from three(3) have ns: "(0xD800 \<le> c \<and> c < 0xE000) = False" by simp
    have b: "b = [of_nat (0xE0 + c div 4096), of_nat (0x80 + c div 64 mod 64),
                  of_nat (0x80 + c mod 64)]"
      using assms three(1,2) by (simp add: utf8_char_def ns del: of_nat_add)
    show ?thesis unfolding b using char3 [OF three] by simp
  next
    case four
    then have b: "b = [of_nat (0xF0 + c div 262144), of_nat (0x80 + c div 4096 mod 64),
                       of_nat (0x80 + c div 64 mod 64), of_nat (0x80 + c mod 64)]"
      using assms by (simp add: utf8_char_def del: of_nat_add)
    show ?thesis unfolding b using char4 [OF four] by simp
  qed
qed

lemma scan_encode:
  "encode s = Inr bs \<Longrightarrow> utf8_scan (bs @ r) = map Cp s @ utf8_scan r"
proof (induction s arbitrary: bs)
  case Nil
  then show ?case by simp
next
  case (Cons c cs)
  from Cons.prems obtain b bs' where b: "utf8_char c = Inr b" "encode cs = Inr bs'" "bs = b @ bs'"
    by (auto split: sum.splits)
  show ?case unfolding b(3) using scan_char [OF b(1), of "bs' @ r"] Cons.IH [OF b(2)] by simp
qed

lemma drop_bad_map:
  "concat (map ((\<lambda>x. case x of Cp c \<Rightarrow> [c] | Bad \<Rightarrow> []) \<circ> Cp) s) = s"
  by (induction s) simp_all

lemma decode_ignore:
  "decode Ignore bs = Inr (concat (map (\<lambda>x. case x of Cp c \<Rightarrow> [c] | Bad \<Rightarrow> []) (utf8_scan bs)))"
  by (simp add: decode_def)

lemma decode_encode:
  assumes "encode s = Inr bs"
  shows "decode Ignore bs = Inr s"
  using scan_encode [OF assms, of "[]"] by (simp add: decode_ignore drop_bad_map)

lemma scan_stray:
  assumes "(0x80 \<le> unat x \<and> unat x < 0xC2) \<or> 0xF5 \<le> unat x"
  shows "utf8_scan (x # r) = Bad # utf8_scan r"
  using assms by (auto simp: Let_def)

lemma decode_stray:
  assumes "encode s1 = Inr b1" and "encode s2 = Inr b2"
    and "(0x80 \<le> unat x \<and> unat x < 0xC2) \<or> 0xF5 \<le> unat x"
  shows "decode Ignore (b1 @ x # b2) = Inr (s1 @ s2)"
proof -
  have "utf8_scan (b1 @ x # b2) = map Cp s1 @ Bad # map Cp s2"
    using scan_encode [OF assms(1), of "x # b2"] scan_stray [OF assms(3), of b2]
      scan_encode [OF assms(2), of "[]"] by simp
  then show ?thesis by (simp add: decode_ignore drop_bad_map)
qed

lemma read_chunk:
  "read_responses (Chunk bs # ps)
     = SerialRead bs # Print (projr (decode Ignore bs)) True # Sleep 10 # read_responses ps"
  by (simp add: decode_ignore)

text \<open>
  Claim C4, as the code has it. The reader decodes with \<^verbatim>\<open>errors='ignore'\<close>: every chunk
  it obtains is decoded as UTF-8 with the undecodable bytes dropped, the decoding never
  fails, and the text is printed at once with a flush. Well-formed UTF-8 is read back
  exactly, and a stray byte between two well-formed texts leaves no trace in the output.
\<close>

theorem reader_drops_undecodable:
  "(\<exists>text. decode Ignore bs = Inr text
        \<and> read_responses (Chunk bs # ps)
            = SerialRead bs # Print text True # Sleep 10 # read_responses ps)
   \<and> (encode s = Inr bs \<longrightarrow> decode Ignore bs = Inr s)
   \<and> (encode s1 = Inr b1 \<and> encode s2 = Inr b2 \<and> bs = b1 @ x # b2
        \<and> ((0x80 \<le> unat x \<and> unat x < 0xC2) \<or> 0xF5 \<le> unat x)
      \<longrightarrow> decode Ignore bs = Inr (s1 @ s2))"
proof (intro conjI impI)
  show "\<exists>text. decode Ignore bs = Inr text
        \<and> read_responses (Chunk bs # ps)
            = SerialRead bs # Print text True # Sleep 10 # read_responses ps"
    by (simp add: decode_ignore)
  show "decode Ignore bs = Inr s" if "encode s = Inr bs"
    using that by (rule decode_encode)
  show "decode Ignore bs = Inr (s1 @ s2)"
    if "encode s1 = Inr b1 \<and> encode s2 = Inr b2 \<and> bs = b1 @ x # b2
        \<and> ((0x80 \<le> unat x \<and> unat x < 0xC2) \<or> 0xF5 \<le> unat x)"
    using that decode_stray [of s1 b1 s2 b2 x] by simp
qed

theorem reader_drops_undecodable_witness:
  "encode (ascii ''OK'' @ nl) = Inr (bytes_of ''OK'' @ [10])
   \<and> read_responses [Chunk (bytes_of ''OK'' @ [10])]
       = [SerialRead (bytes_of ''OK'' @ [10]), Print (ascii ''OK'' @ nl) True, Sleep 10]
   \<and> encode [] = Inr [] \<and> encode (ascii ''OK'') = Inr (bytes_of ''OK'')
   \<and> 0xF5 \<le> unat (0xFF :: byte)
   \<and> decode Ignore (0xFF # bytes_of ''OK'') = Inr (ascii ''OK'')"
proof -
  have e: "encode (ascii ''OK'' @ nl) = Inr (bytes_of ''OK'' @ [10])"
    "encode (ascii ''OK'') = Inr (bytes_of ''OK'')"
    by (simp_all add: ascii_def nl_def bytes_of_def utf8_char_def)
  have x: "0xF5 \<le> unat (0xFF :: byte)" by simp
  have 1: "decode Ignore (bytes_of ''OK'' @ [10]) = Inr (ascii ''OK'' @ nl)"
    using reader_drops_undecodable [of "bytes_of ''OK'' @ [10]" "[]" "ascii ''OK'' @ nl"] e(1)
    by blast
  have 2: "read_responses [Chunk (bytes_of ''OK'' @ [10])]
       = [SerialRead (bytes_of ''OK'' @ [10]), Print (ascii ''OK'' @ nl) True, Sleep 10]"
    using reader_drops_undecodable [of "bytes_of ''OK'' @ [10]" "[]"] 1 by auto
  have 3: "decode Ignore (0xFF # bytes_of ''OK'') = Inr (ascii ''OK'')"
    using reader_drops_undecodable [of "0xFF # bytes_of ''OK''" "[]" "[]" "[]" "[]"
        "ascii ''OK''" "bytes_of ''OK''" "0xFF"] e(2) x
    by simp
  show ?thesis using e x 1 2 3 by simp
qed

text \<open>
  As stated, claim C4 fails: it has the undecodable bytes replaced, not dropped. On the
  chunk \<^verbatim>\<open>FF 4F 4B\<close> the reader prints \<^verbatim>\<open>OK\<close>, where the decoding with replacement gives
  U+FFFD followed by \<^verbatim>\<open>OK\<close>.
\<close>

theorem reader_replace_counterexample:
  "read_responses [Chunk (0xFF # bytes_of ''OK'')]
     = [SerialRead (0xFF # bytes_of ''OK''), Print (ascii ''OK'') True, Sleep 10]
   \<and> spec_read_chunk (0xFF # bytes_of ''OK'')
     = [SerialRead (0xFF # bytes_of ''OK''), Print (0xFFFD # ascii ''OK'') True, Sleep 10]
   \<and> read_responses [Chunk (0xFF # bytes_of ''OK'')] \<noteq> spec_read_chunk (0xFF # bytes_of ''OK'')"
  by (simp add: spec_read_chunk_def decode_def bytes_of_def ascii_def Let_def)

end
